theory Spec2Isabelle
  imports Complex_Main "HOL-Library.Sublist" "HOL-Library.Log_Nat"
begin

section \<open>Strings and regular expressions of the host language\<close>

text \<open>
  A string of the program is a sequence of UTF-16 code units; a code unit is modelled by
  its number (an integer, so that the numbers compute in binary). \<open>str\<close> embeds a
  literal of ASCII characters; the backslash, which has no place in a literal, is the
  code unit \<open>bs\<close>.
\<close>

type_synonym code_unit = int

type_synonym jsstring = "code_unit list"

abbreviation str :: "string \<Rightarrow> jsstring" where
  "str s \<equiv> map of_char s"

definition bs :: code_unit where
  "bs = 92"

text \<open>
  The character classes the source's patterns use: \<open>\s\<close> (white space and line
  terminators, which is also what \<open>trim\<close> strips), \<open>[A-Z]\<close>, \<open>.\<close> (anything but a
  line terminator) and \<open>[\s\S]\<close> (anything).
\<close>

definition is_space :: "code_unit \<Rightarrow> bool" where
  "is_space c \<longleftrightarrow>
     c = 9 \<or> c = 10 \<or> c = 11 \<or> c = 12 \<or> c = 13 \<or> c = 32 \<or> c = 160 \<or> c = 5760 \<or>
     (8192 \<le> c \<and> c \<le> 8202) \<or> c = 8232 \<or> c = 8233 \<or> c = 8239 \<or> c = 8287 \<or>
     c = 12288 \<or> c = 65279"

definition is_upper :: "code_unit \<Rightarrow> bool" where
  "is_upper c \<longleftrightarrow> 65 \<le> c \<and> c \<le> 90"

definition is_dot :: "code_unit \<Rightarrow> bool" where
  "is_dot c \<longleftrightarrow> c \<noteq> 10 \<and> c \<noteq> 13 \<and> c \<noteq> 8232 \<and> c \<noteq> 8233"

definition is_any :: "code_unit \<Rightarrow> bool" where
  "is_any c \<longleftrightarrow> True"

text \<open>
  A pattern is run by backtracking. A matcher maps the text at the current position to
  every way the pattern can match there, in the order the backtracking tries them: each
  is the list of captured groups (in the order of their opening parentheses) and the
  number of code units consumed. The match the engine reports is the first of the list.
\<close>

type_synonym mresult = "jsstring list \<times> nat"
type_synonym matcher = "jsstring \<Rightarrow> mresult list"

definition re_lit :: "jsstring \<Rightarrow> matcher" where
  "re_lit w s = (if take (length w) s = w then [([], length w)] else [])"

definition re_cls :: "(code_unit \<Rightarrow> bool) \<Rightarrow> matcher" where
  "re_cls P s = (case s of [] \<Rightarrow> [] | c # _ \<Rightarrow> if P c then [([], 1)] else [])"

definition re_star :: "(code_unit \<Rightarrow> bool) \<Rightarrow> matcher" where
  \<comment> \<open>\<open>C*\<close>, greedy: the longest run first\<close>
  "re_star P s = map (\<lambda>n. ([], n)) (rev [0..<Suc (length (takeWhile P s))])"

definition re_lazy :: "(code_unit \<Rightarrow> bool) \<Rightarrow> matcher" where
  \<comment> \<open>\<open>C*?\<close>, lazy: the shortest run first\<close>
  "re_lazy P s = map (\<lambda>n. ([], n)) [0..<Suc (length (takeWhile P s))]"

definition re_opt :: "matcher \<Rightarrow> matcher" where
  \<comment> \<open>\<open>p?\<close>, greedy\<close>
  "re_opt p s = p s @ [([], 0)]"

definition re_seq :: "matcher \<Rightarrow> matcher \<Rightarrow> matcher" where
  "re_seq p q s =
     concat (map (\<lambda>(c1, n1). map (\<lambda>(c2, n2). (c1 @ c2, n1 + n2)) (q (drop n1 s))) (p s))"

definition re_grp :: "matcher \<Rightarrow> matcher" where
  \<comment> \<open>a capturing group: its text comes before the groups opened inside it\<close>
  "re_grp p s = map (\<lambda>(cs, n). (take n s # cs, n)) (p s)"

definition re_not_ahead :: "(code_unit \<Rightarrow> bool) \<Rightarrow> matcher" where
  \<comment> \<open>\<open>(?!C)\<close>: the next code unit, if there is one, is not in the class\<close>
  "re_not_ahead P s = (case s of [] \<Rightarrow> [([], 0)] | c # _ \<Rightarrow> if P c then [] else [([], 0)])"

definition re_end :: matcher where
  \<comment> \<open>\<open>$\<close> without the multiline flag\<close>
  "re_end s = (if s = [] then [([], 0)] else [])"

definition exec_at :: "matcher \<Rightarrow> jsstring \<Rightarrow> mresult option" where
  "exec_at p s = (case p s of [] \<Rightarrow> None | r # _ \<Rightarrow> Some r)"

text \<open>
  \<open>s.replace(/p/g, r)\<close>: the matches are found from left to right, each search starting
  where the last match ended (one code unit further after an empty match), and each match
  is replaced by the expansion of the template \<open>r\<close> on its groups.
\<close>

fun replace_all :: "matcher \<Rightarrow> (jsstring list \<Rightarrow> jsstring) \<Rightarrow> jsstring \<Rightarrow> jsstring" where
  "replace_all p rep [] = (case exec_at p [] of None \<Rightarrow> [] | Some (caps, n) \<Rightarrow> rep caps)"
| "replace_all p rep (c # cs) =
     (case exec_at p (c # cs) of
        None \<Rightarrow> c # replace_all p rep cs
      | Some (caps, n) \<Rightarrow>
          if n = 0 then rep caps @ c # replace_all p rep cs
          else rep caps @ replace_all p rep (drop (n - 1) cs))"

text \<open>The text of group \<open>$1\<close> in a template: empty when the group did not take part.\<close>

definition group1 :: "jsstring list \<Rightarrow> jsstring" where
  "group1 caps = (case caps of [] \<Rightarrow> [] | g # _ \<Rightarrow> g)"

section \<open>The LaTeX normalizer of transcribeImage\<close>

text \<open>
  The four rewrites applied to the content of a text part, in the order of the source:
  \<^verbatim>\<open>/\\\(([\s\S]*?)\\\)/g\<close> with template \<^verbatim>\<open>$$$1$$\<close> (a dollar, group 1, a dollar),
  \<^verbatim>\<open>/\\\[([\s\S]*?)\\\]/g\<close> with \<^verbatim>\<open>$$$$$1$$$$\<close> (two dollars, group 1, two dollars),
  \<^verbatim>\<open>/\\angle\s*\{?([A-Z]{3})\}?/g\<close> with \<^verbatim>\<open>\\widehat{$1}\<close> and
  \<^verbatim>\<open>/\\angle\s*\{?([A-Z])\}?(?![A-Z])/g\<close> with \<^verbatim>\<open>\\hat{$1}\<close>.
\<close>

definition re_inline :: matcher where
  "re_inline = re_seq (re_lit (bs # str ''('')) (re_seq (re_grp (re_lazy is_any)) (re_lit (bs # str '')'')))"

definition re_display :: matcher where
  "re_display = re_seq (re_lit (bs # str ''['')) (re_seq (re_grp (re_lazy is_any)) (re_lit (bs # str '']'')))"

definition re_angle3 :: matcher where
  "re_angle3 =
     re_seq (re_lit (bs # str ''angle'')) (re_seq (re_star is_space) (re_seq (re_opt (re_lit (str ''{'')))
       (re_seq (re_grp (re_seq (re_cls is_upper) (re_seq (re_cls is_upper) (re_cls is_upper))))
          (re_opt (re_lit (str ''}''))))))"

definition re_angle1 :: matcher where
  "re_angle1 =
     re_seq (re_lit (bs # str ''angle'')) (re_seq (re_star is_space) (re_seq (re_opt (re_lit (str ''{'')))
       (re_seq (re_grp (re_cls is_upper))
          (re_seq (re_opt (re_lit (str ''}''))) (re_not_ahead is_upper)))))"

definition tpl_inline :: "jsstring list \<Rightarrow> jsstring" where
  "tpl_inline caps = str ''$'' @ group1 caps @ str ''$''"

definition tpl_display :: "jsstring list \<Rightarrow> jsstring" where
  "tpl_display caps = str ''$$'' @ group1 caps @ str ''$$''"

definition tpl_widehat :: "jsstring list \<Rightarrow> jsstring" where
  "tpl_widehat caps = bs # str ''widehat{'' @ group1 caps @ str ''}''"

definition tpl_hat :: "jsstring list \<Rightarrow> jsstring" where
  "tpl_hat caps = bs # str ''hat{'' @ group1 caps @ str ''}''"

definition rewrite_inline :: "jsstring \<Rightarrow> jsstring" where
  "rewrite_inline s = replace_all re_inline tpl_inline s"

definition rewrite_display :: "jsstring \<Rightarrow> jsstring" where
  "rewrite_display s = replace_all re_display tpl_display s"

definition rewrite_angle3 :: "jsstring \<Rightarrow> jsstring" where
  "rewrite_angle3 s = replace_all re_angle3 tpl_widehat s"

definition rewrite_angle1 :: "jsstring \<Rightarrow> jsstring" where
  "rewrite_angle1 s = replace_all re_angle1 tpl_hat s"

definition normalize_latex :: "jsstring \<Rightarrow> jsstring" where
  "normalize_latex textContent =
     rewrite_angle1 (rewrite_angle3 (rewrite_display (rewrite_inline textContent)))"

section \<open>Numbers of the host language\<close>

text \<open>
  A number of the program is an IEEE 754 double: a finite value, which is a rational,
  one of the two infinities, or NaN. An arithmetic operation gives the exact result
  rounded to the nearest double, a tie going to the even significand, and an infinity
  when the rounded value reaches \<open>2^1024\<close>. The sign of zero is not kept: only a
  division by zero tells the two zeros apart, and the program divides by 1000 and by a
  width above 600; a zero divisor is taken as the positive zero.
\<close>

datatype number = Finite rat | Pos_inf | Neg_inf | NaN

definition rne :: "rat \<Rightarrow> int" where
  \<comment> \<open>the nearest integer, the even one of two that are equally near\<close>
  "rne x =
     (let f = \<lfloor>x\<rfloor>; d = x - of_int f
      in if d < 1 / 2 then f else if 1 / 2 < d then f + 1 else if even f then f else f + 1)"

definition expo :: "rat \<Rightarrow> int" where
  \<comment> \<open>for a positive \<open>q\<close>, the exponent \<open>e\<close> with \<open>2^e \<le> q < 2^(e+1)\<close>\<close>
  "expo q =
     (let e0 = bitlen (fst (quotient_of q)) - bitlen (snd (quotient_of q))
      in if 2 powi e0 \<le> q then e0 else e0 - 1)"

definition round_pos :: "rat \<Rightarrow> rat" where
  \<comment> \<open>a positive value to 53 significant bits; below \<open>2^-1022\<close> the spacing stays \<open>2^-1074\<close>\<close>
  "round_pos q =
     (let u = 2 powi (max (expo q) (- 1022) - 52) in of_int (rne (q / u)) * u)"

definition round64 :: "rat \<Rightarrow> number" where
  "round64 q =
     (if q = 0 then Finite 0
      else let r = round_pos \<bar>q\<bar>
           in if 2 powi 1024 \<le> r then (if 0 < q then Pos_inf else Neg_inf)
              else Finite (if 0 < q then r else - r))"

text \<open>The number that holds a size in pixels, then \<open>*\<close>, \<open>-\<close>, \<open>/\<close>, \<open>\<le>\<close> and \<open><\<close> on
  numbers.\<close>

definition num_nat :: "nat \<Rightarrow> number" where
  "num_nat n = round64 (of_nat n)"

fun num_times :: "number \<Rightarrow> number \<Rightarrow> number" where
  "num_times (Finite x) (Finite y) = round64 (x * y)"
| "num_times NaN b = NaN"
| "num_times a NaN = NaN"
| "num_times (Finite x) Pos_inf = (if x = 0 then NaN else if 0 < x then Pos_inf else Neg_inf)"
| "num_times (Finite x) Neg_inf = (if x = 0 then NaN else if 0 < x then Neg_inf else Pos_inf)"
| "num_times Pos_inf (Finite y) = (if y = 0 then NaN else if 0 < y then Pos_inf else Neg_inf)"
| "num_times Neg_inf (Finite y) = (if y = 0 then NaN else if 0 < y then Neg_inf else Pos_inf)"
| "num_times Pos_inf Pos_inf = Pos_inf"
| "num_times Pos_inf Neg_inf = Neg_inf"
| "num_times Neg_inf Pos_inf = Neg_inf"
| "num_times Neg_inf Neg_inf = Pos_inf"

fun num_minus :: "number \<Rightarrow> number \<Rightarrow> number" where
  "num_minus (Finite x) (Finite y) = round64 (x - y)"
| "num_minus NaN b = NaN"
| "num_minus a NaN = NaN"
| "num_minus (Finite x) Pos_inf = Neg_inf"
| "num_minus (Finite x) Neg_inf = Pos_inf"
| "num_minus Pos_inf (Finite y) = Pos_inf"
| "num_minus Neg_inf (Finite y) = Neg_inf"
| "num_minus Pos_inf Neg_inf = Pos_inf"
| "num_minus Neg_inf Pos_inf = Neg_inf"
| "num_minus Pos_inf Pos_inf = NaN"
| "num_minus Neg_inf Neg_inf = NaN"

fun num_divide :: "number \<Rightarrow> number \<Rightarrow> number" where
  "num_divide (Finite x) (Finite y) =
     (if y = 0 then (if x = 0 then NaN else if 0 < x then Pos_inf else Neg_inf)
      else round64 (x / y))"
| "num_divide NaN b = NaN"
| "num_divide a NaN = NaN"
| "num_divide (Finite x) Pos_inf = Finite 0"
| "num_divide (Finite x) Neg_inf = Finite 0"
| "num_divide Pos_inf (Finite y) = (if 0 \<le> y then Pos_inf else Neg_inf)"
| "num_divide Neg_inf (Finite y) = (if 0 \<le> y then Neg_inf else Pos_inf)"
| "num_divide Pos_inf Pos_inf = NaN"
| "num_divide Pos_inf Neg_inf = NaN"
| "num_divide Neg_inf Pos_inf = NaN"
| "num_divide Neg_inf Neg_inf = NaN"

fun num_le :: "number \<Rightarrow> number \<Rightarrow> bool" where
  "num_le (Finite x) (Finite y) = (x \<le> y)"
| "num_le NaN b = False"
| "num_le a NaN = False"
| "num_le Neg_inf b = True"
| "num_le a Pos_inf = True"
| "num_le Pos_inf b = False"
| "num_le a Neg_inf = False"

fun num_less :: "number \<Rightarrow> number \<Rightarrow> bool" where
  "num_less (Finite x) (Finite y) = (x < y)"
| "num_less NaN b = False"
| "num_less a NaN = False"
| "num_less Pos_inf b = False"
| "num_less a Neg_inf = False"
| "num_less Neg_inf b = True"
| "num_less a Pos_inf = True"

section \<open>The region cropper\<close>

text \<open>
  The box is a list of numbers. The destructuring
  \<^verbatim>\<open>[ymin, xmin, ymax, xmax] = box\<close> gives \<open>undefined\<close> where the list has no element,
  which the division turns into NaN; NaN makes every comparison false.
\<close>

definition box_elem :: "number list \<Rightarrow> nat \<Rightarrow> number" where
  "box_elem box i = (if i < length box then box ! i else NaN)"

definition to_pixels :: "number \<Rightarrow> nat \<Rightarrow> number" where
  \<comment> \<open>\<^verbatim>\<open>(v / 1000) * real\<close>\<close>
  "to_pixels v extent = num_times (num_divide v (Finite 1000)) (num_nat extent)"

text \<open>
  The image either loads, with its width and height, or fails to; the 2D context of the
  fresh canvas is there or not. The promise resolves with the empty string at the
  guard, resolves with the encoding of a canvas that was sized with \<open>width\<close> and
  \<open>height\<close> and onto which \<open>drawImage\<close> was called with the source rectangle
  \<open>(x1, y1, width, height)\<close>, or rejects. The result of the model is that rectangle,
  as the numbers the code passes on; what the canvas draws from them is the browser's.
\<close>

datatype image_load = Loaded nat nat | Load_failed

record crop_rect =
  rect_x :: number
  rect_y :: number
  rect_width :: number
  rect_height :: number

datatype crop_error = Image_error | No_canvas_context

datatype crop_result = Resolved_empty | Resolved_crop crop_rect | Rejected crop_error

definition cropImageFromBase64 :: "image_load \<Rightarrow> bool \<Rightarrow> number list \<Rightarrow> crop_result" where
  "cropImageFromBase64 img has_ctx box =
     (case img of
        Load_failed \<Rightarrow> Rejected Image_error
      | Loaded realWidth realHeight \<Rightarrow>
          let ymin = box_elem box 0; xmin = box_elem box 1;
              ymax = box_elem box 2; xmax = box_elem box 3;
              y1 = to_pixels ymin realHeight;
              x1 = to_pixels xmin realWidth;
              y2 = to_pixels ymax realHeight;
              x2 = to_pixels xmax realWidth;
              width = num_minus x2 x1;
              height = num_minus y2 y1
          in if num_le width (Finite 0) \<or> num_le height (Finite 0) then Resolved_empty
             else if \<not> has_ctx then Rejected No_canvas_context
             else Resolved_crop
                    \<lparr>rect_x = x1, rect_y = y1, rect_width = width, rect_height = height\<rparr>)"

text \<open>The invariant the specification puts on a bounding box \<open>[yMin, xMin, yMax, xMax]\<close>.\<close>

definition spec_box_invariant :: "number list \<Rightarrow> bool" where
  "spec_box_invariant box =
     (case box of
        [Finite ymin, Finite xmin, Finite ymax, Finite xmax] \<Rightarrow>
          0 \<le> ymin \<and> ymin < ymax \<and> ymax \<le> 1000 \<and> 0 \<le> xmin \<and> xmin < xmax \<and> xmax \<le> 1000
      | _ \<Rightarrow> False)"

text \<open>
  Two bounds of one axis that are out of order: finite, the upper one not above the
  lower one, and of a size (at most \<open>10^300\<close>) that the scaling to pixels cannot take
  to an infinity.
\<close>

definition out_of_order :: "number \<Rightarrow> number \<Rightarrow> bool" where
  "out_of_order lo hi =
     (case (lo, hi) of
        (Finite a, Finite b) \<Rightarrow> b \<le> a \<and> \<bar>a\<bar> \<le> 10 ^ 300 \<and> \<bar>b\<bar> \<le> 10 ^ 300
      | _ \<Rightarrow> False)"

section \<open>More of the host language: search, split, join, trim\<close>

text \<open>
  \<open>s.match(/p/)\<close> and \<open>s.replace(/p/, r)\<close> without the global flag look for the
  leftmost match: its start index, its groups and its length. \<open>s.replace(/^p/, r)\<close>
  can only match at index 0, since \<open>^\<close> holds nowhere else without the multiline flag.
\<close>

fun re_search :: "matcher \<Rightarrow> jsstring \<Rightarrow> (nat \<times> jsstring list \<times> nat) option" where
  "re_search p [] = (case exec_at p [] of None \<Rightarrow> None | Some (caps, n) \<Rightarrow> Some (0, caps, n))"
| "re_search p (c # cs) =
     (case exec_at p (c # cs) of
        Some (caps, n) \<Rightarrow> Some (0, caps, n)
      | None \<Rightarrow> map_option (\<lambda>(i, caps, n). (Suc i, caps, n)) (re_search p cs))"

definition replace_first :: "matcher \<Rightarrow> (jsstring list \<Rightarrow> jsstring) \<Rightarrow> jsstring \<Rightarrow> jsstring" where
  "replace_first p rep s =
     (case re_search p s of
        None \<Rightarrow> s
      | Some (i, caps, n) \<Rightarrow> take i s @ rep caps @ drop (i + n) s)"

definition replace_at_start :: "matcher \<Rightarrow> (jsstring list \<Rightarrow> jsstring) \<Rightarrow> jsstring \<Rightarrow> jsstring" where
  "replace_at_start p rep s =
     (case exec_at p s of None \<Rightarrow> s | Some (caps, n) \<Rightarrow> rep caps @ drop n s)"

definition group2 :: "jsstring list \<Rightarrow> jsstring" where
  "group2 caps = (case caps of _ # g # _ \<Rightarrow> g | _ \<Rightarrow> [])"

fun split_on :: "code_unit \<Rightarrow> jsstring \<Rightarrow> jsstring list" where
  "split_on sep [] = [[]]"
| "split_on sep (c # cs) =
     (if c = sep then [] # split_on sep cs
      else (case split_on sep cs of [] \<Rightarrow> [[c]] | l # ls \<Rightarrow> (c # l) # ls))"

definition js_join :: "jsstring \<Rightarrow> jsstring list \<Rightarrow> jsstring" where
  \<comment> \<open>\<open>xs.join(sep)\<close>: the first element, then the separator and the element for each further one\<close>
  "js_join sep xs = (case xs of [] \<Rightarrow> [] | x # rest \<Rightarrow> foldl (\<lambda>r e. r @ sep @ e) x rest)"

definition js_trim :: "jsstring \<Rightarrow> jsstring" where
  "js_trim s = rev (dropWhile is_space (rev (dropWhile is_space s)))"

section \<open>The exporters\<close>

record ProcessedPage =
  pageNumber :: nat
  imageUrl :: jsstring
  markdown :: jsstring

text \<open>
  The pattern both exporters look for in a line:
  \<^verbatim>\<open>/!\[.*?\]\((data:image\/.*?;base64,(.*?))\)/\<close>. Group 1 is the data URL, group 2 its
  base64 payload.
\<close>

definition re_image :: matcher where
  "re_image =
     re_seq (re_lit (str ''!['')) (re_seq (re_lazy is_dot) (re_seq (re_lit (str ''](''))
       (re_seq
          (re_grp (re_seq (re_lit (str ''data:image/'')) (re_seq (re_lazy is_dot)
             (re_seq (re_lit (str '';base64,'')) (re_grp (re_lazy is_dot))))))
          (re_lit (str '')'')))))"

subsection \<open>copyToClipboard\<close>

definition escape_html :: "jsstring \<Rightarrow> jsstring" where
  "escape_html line =
     replace_all (re_lit (str ''>'')) (\<lambda>_. str ''&gt;'')
       (replace_all (re_lit (str ''<'')) (\<lambda>_. str ''&lt;'')
          (replace_all (re_lit (str ''&'')) (\<lambda>_. str ''&amp;'') line))"

definition img_html :: "jsstring \<Rightarrow> jsstring" where
  "img_html url =
     str ''<p align=\"center\"><img src=\"'' @ url @ str ''\" style=\"max-width: 400px;\" /></p>''"

definition paragraph_html :: "jsstring \<Rightarrow> jsstring" where
  "paragraph_html safeText =
     str ''<p style=\"font-family: 'Times New Roman', serif; font-size: 12pt; margin-bottom: 8px;\">''
       @ safeText @ str ''</p>''"

definition html_text_line :: "jsstring \<Rightarrow> jsstring" where
  \<comment> \<open>the \<open>else\<close> branch: a line that is not taken as an image\<close>
  "html_text_line line =
     (let safeText = escape_html line
      in if js_trim safeText \<noteq> [] then paragraph_html safeText else [])"

definition html_line :: "jsstring \<Rightarrow> jsstring" where
  \<comment> \<open>what one line adds to \<open>htmlContent\<close>; the test is \<open>imageMatch && imageMatch[1]\<close>\<close>
  "html_line line =
     (case re_search re_image line of
        None \<Rightarrow> html_text_line line
      | Some (i, caps, n) \<Rightarrow>
          if group1 caps \<noteq> [] then img_html (group1 caps) else html_text_line line)"

definition html_page :: "ProcessedPage \<Rightarrow> jsstring" where
  "html_page page =
     concat (map html_line (split_on 10 (markdown page))) @ str ''<br/><hr/><br/>''"

definition full_html :: "jsstring \<Rightarrow> jsstring" where
  "full_html htmlContent =
     str ''\<newline>      <!DOCTYPE html>\<newline>      <html>\<newline>      <body>\<newline>        ''
       @ htmlContent @ str ''\<newline>      </body>\<newline>      </html>\<newline>    ''"

record clipboard_item =
  text_plain :: jsstring
  text_html :: jsstring

definition clipboard_payload :: "ProcessedPage list \<Rightarrow> clipboard_item" where
  "clipboard_payload pages =
     \<lparr>text_plain = js_join (str ''\<newline>\<newline>'') (map markdown pages),
      text_html = full_html (concat (map html_page pages))\<rparr>"

text \<open>
  The write to the system clipboard is the browser's: it takes the item or refuses it.
  The result of the call is what was written, if anything, and the alert shown.
\<close>

definition copyToClipboard :: "bool \<Rightarrow> ProcessedPage list \<Rightarrow> clipboard_item option \<times> jsstring" where
  "copyToClipboard write_allowed pages =
     (let item = clipboard_payload pages
      in if write_allowed
         then (Some item, str ''Copied to clipboard! Paste into Word and use MathType > Toggle TeX.'')
         else (None, str ''Failed to copy to clipboard. Permission denied or browser not supported.''))"

subsection \<open>generateDocx\<close>

text \<open>
  What the browser does with a base64 payload: measuring the image it decodes to (or
  failing to load it) and \<open>atob\<close> (or its exception on a payload that is not base64).
\<close>

record docx_env =
  measure_image :: "jsstring \<Rightarrow> (nat \<times> nat) option"
  atob :: "jsstring \<Rightarrow> jsstring option"

datatype docx_paragraph =
    Para_text jsstring
  | Para_run jsstring jsstring nat
  | Para_image "int list" number number
  | Para_page_break

definition getImageDimensions :: "docx_env \<Rightarrow> jsstring \<Rightarrow> nat \<times> nat" where
  "getImageDimensions env base64 =
     (case measure_image env base64 of Some d \<Rightarrow> d | None \<Rightarrow> (400, 300))"

definition MAX_WIDTH :: number where
  "MAX_WIDTH = Finite 600"

definition image_paragraph :: "docx_env \<Rightarrow> jsstring \<Rightarrow> docx_paragraph" where
  \<comment> \<open>the \<open>try\<close> block; the decoding of the payload is what can throw in it\<close>
  "image_paragraph env base64Data =
     (let dims = getImageDimensions env base64Data;
          finalWidth = num_nat (fst dims);
          finalHeight = num_nat (snd dims);
          (finalWidth, finalHeight) =
            (if num_less MAX_WIDTH finalWidth
             then let ratio = num_divide MAX_WIDTH finalWidth
                  in (MAX_WIDTH, num_times finalHeight ratio)
             else (finalWidth, finalHeight))
      in case atob env base64Data of
           None \<Rightarrow> Para_text (str ''[Image Error]'')
         | Some binary \<Rightarrow> Para_image (map (\<lambda>c. c mod 256) binary) finalWidth finalHeight)"

definition text_paragraph :: "jsstring \<Rightarrow> docx_paragraph" where
  "text_paragraph line = Para_run line (str ''Times New Roman'') 24"

definition docx_line :: "docx_env \<Rightarrow> jsstring \<Rightarrow> docx_paragraph" where
  \<comment> \<open>the paragraph of one line; the test is \<open>imageMatch && imageMatch[2]\<close>\<close>
  "docx_line env line =
     (if js_trim line = [] then Para_text []
      else case re_search re_image line of
             None \<Rightarrow> text_paragraph line
           | Some (i, caps, n) \<Rightarrow>
               if group2 caps \<noteq> [] then image_paragraph env (group2 caps)
               else text_paragraph line)"


text \<open>Two browsers to run the exporter in: one decodes the payload \<open>QUJD\<close> to an
  image of 1200 by 800, the other decodes nothing.\<close>

definition sample_env :: docx_env where
  "sample_env =
     \<lparr>measure_image = (\<lambda>d. if d = str ''QUJD'' then Some (1200, 800) else None),
      atob = (\<lambda>d. if d = str ''QUJD'' then Some (str ''ABC'') else None)\<rparr>"

definition failing_env :: docx_env where
  "failing_env = \<lparr>measure_image = (\<lambda>d. None), atob = (\<lambda>d. None)\<rparr>"

text \<open>
  The plain text as the specification words it: the pages' Markdown, in page order,
  with a blank line (two newlines) between one page and the next.
\<close>

fun spec_blank_line_join :: "jsstring list \<Rightarrow> jsstring" where
  "spec_blank_line_join [] = []"
| "spec_blank_line_join [m] = m"
| "spec_blank_line_join (m # m' # ms) = m @ str ''\<newline>\<newline>'' @ spec_blank_line_join (m' # ms)"

section \<open>JSON values and JSON.parse\<close>

text \<open>
  What \<open>JSON.parse\<close> gives: null, a boolean, a number (the exact value of its literal),
  a string, an array, or an object, kept as its members in the order of the text. Reading
  a property of an object finds the last member of that name, or nothing
  (\<open>undefined\<close>).
\<close>

datatype json =
    JNull
  | JBool bool
  | JNumber rat
  | JString jsstring
  | JArray "json list"
  | JObject "(jsstring \<times> json) list"

datatype 'a parse = Parsed 'a jsstring | Syntax_error | Out_of_fuel

definition is_json_ws :: "code_unit \<Rightarrow> bool" where
  "is_json_ws c \<longleftrightarrow> c = 32 \<or> c = 9 \<or> c = 10 \<or> c = 13"

definition skip_ws :: "jsstring \<Rightarrow> jsstring" where
  "skip_ws s = dropWhile is_json_ws s"

definition is_digit :: "code_unit \<Rightarrow> bool" where
  "is_digit c \<longleftrightarrow> 48 \<le> c \<and> c \<le> 57"

definition hex_value :: "code_unit \<Rightarrow> int option" where
  "hex_value c =
     (if 48 \<le> c \<and> c \<le> 57 then Some (c - 48)
      else if 65 \<le> c \<and> c \<le> 70 then Some (c - 55)
      else if 97 \<le> c \<and> c \<le> 102 then Some (c - 87)
      else None)"

definition unescape :: "code_unit \<Rightarrow> code_unit option" where
  \<comment> \<open>the code unit after a backslash: \<open>" \ / b f n r t\<close>\<close>
  "unescape e =
     (if e = 34 then Some 34 else if e = 92 then Some 92 else if e = 47 then Some 47
      else if e = 98 then Some 8 else if e = 102 then Some 12 else if e = 110 then Some 10
      else if e = 114 then Some 13 else if e = 116 then Some 9 else None)"

text \<open>The rest of a string after its opening quote: its value and what follows the closing quote.\<close>

fun parse_string_body :: "jsstring \<Rightarrow> (jsstring \<times> jsstring) option" where
  "parse_string_body [] = None"
| "parse_string_body (c # cs) =
     (if c = 34 then Some ([], cs)
      else if c = 92 then
        (case cs of
           [] \<Rightarrow> None
         | e # r \<Rightarrow>
             if e = 117 then
               (case r of
                  h1 # h2 # h3 # h4 # r' \<Rightarrow>
                    (case (hex_value h1, hex_value h2, hex_value h3, hex_value h4) of
                       (Some a, Some b, Some c, Some d) \<Rightarrow>
                         map_option (apfst ((#) (((a * 16 + b) * 16 + c) * 16 + d)))
                           (parse_string_body r')
                     | _ \<Rightarrow> None)
                | _ \<Rightarrow> None)
             else
               (case unescape e of
                  None \<Rightarrow> None
                | Some x \<Rightarrow> map_option (apfst ((#) x)) (parse_string_body r)))
      else if c < 32 then None
      else map_option (apfst ((#) c)) (parse_string_body cs))"

definition digits_value :: "jsstring \<Rightarrow> int" where
  "digits_value ds = foldl (\<lambda>a d. a * 10 + (d - 48)) 0 ds"

text \<open>
  A number: an optional minus, \<open>0\<close> or a run of digits that does not start with \<open>0\<close>,
  an optional fraction, an optional exponent.
\<close>

definition parse_exponent :: "jsstring \<Rightarrow> (int \<times> jsstring) option" where
  "parse_exponent s =
     (case s of
        [] \<Rightarrow> Some (0, s)
      | c # r \<Rightarrow>
          if c = 101 \<or> c = 69 then
            (let (neg, r1) = (case r of
                                [] \<Rightarrow> (False, r)
                              | g # r' \<Rightarrow> if g = 45 then (True, r') else if g = 43 then (False, r') else (False, r));
                 ds = takeWhile is_digit r1
             in if ds = [] then None
                else Some (if neg then - digits_value ds else digits_value ds, dropWhile is_digit r1))
          else Some (0, s))"

definition parse_fraction :: "jsstring \<Rightarrow> (rat \<times> jsstring) option" where
  "parse_fraction s =
     (case s of
        [] \<Rightarrow> Some (0, s)
      | c # r \<Rightarrow>
          if c = 46 then
            (let ds = takeWhile is_digit r
             in if ds = [] then None
                else Some (of_int (digits_value ds) / 10 ^ length ds, dropWhile is_digit r))
          else Some (0, s))"

definition parse_integer :: "jsstring \<Rightarrow> (int \<times> jsstring) option" where
  "parse_integer s =
     (case s of
        [] \<Rightarrow> None
      | c # r \<Rightarrow>
          if c = 48 then Some (0, r)
          else if is_digit c then Some (digits_value (takeWhile is_digit s), dropWhile is_digit s)
          else None)"

definition parse_number :: "jsstring \<Rightarrow> (rat \<times> jsstring) option" where
  "parse_number s =
     (let (neg, s1) = (case s of [] \<Rightarrow> (False, s) | c # r \<Rightarrow> if c = 45 then (True, r) else (False, s))
      in case parse_integer s1 of
           None \<Rightarrow> None
         | Some (ip, s2) \<Rightarrow>
             (case parse_fraction s2 of
                None \<Rightarrow> None
              | Some (fp, s3) \<Rightarrow>
                  (case parse_exponent s3 of
                     None \<Rightarrow> None
                   | Some (ex, s4) \<Rightarrow>
                       let m = of_int ip + fp;
                           v = (if 0 \<le> ex then m * 10 ^ nat ex else m / 10 ^ nat (- ex))
                       in Some (if neg then - v else v, s4))))"

text \<open>
  Values, the elements of an array after its bracket and the members of an object after
  its brace. The nesting is followed with fuel, of which \<open>JSON_parse\<close> gives more than
  any text can use.
\<close>

fun parse_value :: "nat \<Rightarrow> jsstring \<Rightarrow> json parse"
  and parse_elements :: "nat \<Rightarrow> jsstring \<Rightarrow> (json list) parse"
  and parse_members :: "nat \<Rightarrow> jsstring \<Rightarrow> ((jsstring \<times> json) list) parse" where
  "parse_value 0 s = Out_of_fuel"
| "parse_value (Suc k) s =
     (case skip_ws s of
        [] \<Rightarrow> Syntax_error
      | c # r \<Rightarrow>
          if c = 123 then
            (case skip_ws r of
               [] \<Rightarrow> Syntax_error
             | d # r' \<Rightarrow>
                 if d = 125 then Parsed (JObject []) r'
                 else (case parse_members k r of
                         Parsed kvs rest \<Rightarrow> Parsed (JObject kvs) rest
                       | Syntax_error \<Rightarrow> Syntax_error
                       | Out_of_fuel \<Rightarrow> Out_of_fuel))
          else if c = 91 then
            (case skip_ws r of
               [] \<Rightarrow> Syntax_error
             | d # r' \<Rightarrow>
                 if d = 93 then Parsed (JArray []) r'
                 else (case parse_elements k r of
                         Parsed vs rest \<Rightarrow> Parsed (JArray vs) rest
                       | Syntax_error \<Rightarrow> Syntax_error
                       | Out_of_fuel \<Rightarrow> Out_of_fuel))
          else if c = 34 then
            (case parse_string_body r of
               None \<Rightarrow> Syntax_error
             | Some (v, rest) \<Rightarrow> Parsed (JString v) rest)
          else if c = 45 \<or> is_digit c then
            (case parse_number (c # r) of
               None \<Rightarrow> Syntax_error
             | Some (q, rest) \<Rightarrow> Parsed (JNumber q) rest)
          else if take 4 (c # r) = str ''true'' then Parsed (JBool True) (drop 4 (c # r))
          else if take 5 (c # r) = str ''false'' then Parsed (JBool False) (drop 5 (c # r))
          else if take 4 (c # r) = str ''null'' then Parsed JNull (drop 4 (c # r))
          else Syntax_error)"
| "parse_elements 0 s = Out_of_fuel"
| "parse_elements (Suc k) s =
     (case parse_value k s of
        Parsed v r \<Rightarrow>
          (case skip_ws r of
             [] \<Rightarrow> Syntax_error
           | c # r' \<Rightarrow>
               if c = 44 then
                 (case parse_elements k r' of
                    Parsed vs rest \<Rightarrow> Parsed (v # vs) rest
                  | Syntax_error \<Rightarrow> Syntax_error
                  | Out_of_fuel \<Rightarrow> Out_of_fuel)
               else if c = 93 then Parsed [v] r'
               else Syntax_error)
      | Syntax_error \<Rightarrow> Syntax_error
      | Out_of_fuel \<Rightarrow> Out_of_fuel)"
| "parse_members 0 s = Out_of_fuel"
| "parse_members (Suc k) s =
     (case skip_ws s of
        [] \<Rightarrow> Syntax_error
      | q # r \<Rightarrow>
          if q \<noteq> 34 then Syntax_error
          else (case parse_string_body r of
                  None \<Rightarrow> Syntax_error
                | Some (key, r1) \<Rightarrow>
                    (case skip_ws r1 of
                       [] \<Rightarrow> Syntax_error
                     | c # r2 \<Rightarrow>
                         if c \<noteq> 58 then Syntax_error
                         else (case parse_value k r2 of
                                 Parsed v r3 \<Rightarrow>
                                   (case skip_ws r3 of
                                      [] \<Rightarrow> Syntax_error
                                    | d # r4 \<Rightarrow>
                                        if d = 44 then
                                          (case parse_members k r4 of
                                             Parsed kvs rest \<Rightarrow> Parsed ((key, v) # kvs) rest
                                           | Syntax_error \<Rightarrow> Syntax_error
                                           | Out_of_fuel \<Rightarrow> Out_of_fuel)
                                        else if d = 125 then Parsed [(key, v)] r4
                                        else Syntax_error)
                               | Syntax_error \<Rightarrow> Syntax_error
                               | Out_of_fuel \<Rightarrow> Out_of_fuel))))"

definition JSON_parse :: "jsstring \<Rightarrow> json option" where
  \<comment> \<open>\<open>None\<close> is the SyntaxError that \<open>JSON.parse\<close> throws\<close>
  "JSON_parse text =
     (case parse_value (2 * length text + 2) text of
        Parsed v rest \<Rightarrow> if skip_ws rest = [] then Some v else None
      | Syntax_error \<Rightarrow> None
      | Out_of_fuel \<Rightarrow> None)"

section \<open>The parser step of transcribeImage\<close>

text \<open>
  Reading one of the properties \<open>parts\<close>, \<open>type\<close>, \<open>content\<close> and \<open>box_2d\<close>, which no
  prototype defines: of null it is a TypeError, of an object its member or
  \<open>undefined\<close>, of any other value \<open>undefined\<close>. Once a property of a value has been
  read the value is not null, and \<open>member\<close> reads its other properties.
\<close>

datatype type_error = TypeError

fun member :: "json \<Rightarrow> jsstring \<Rightarrow> json option" where
  "member (JObject members) name = map_of (rev members) name"
| "member v name = None"

definition get_prop :: "json \<Rightarrow> jsstring \<Rightarrow> type_error + json option" where
  "get_prop v name = (if v = JNull then Inl TypeError else Inr (member v name))"

text \<open>
  Truthiness. A number is falsy when it is zero as a double, that is when its exact
  value is at most \<open>2^-1075\<close> in magnitude and so rounds to zero.
\<close>

fun truthy :: "json option \<Rightarrow> bool" where
  "truthy None = False"
| "truthy (Some JNull) = False"
| "truthy (Some (JBool b)) = b"
| "truthy (Some (JNumber q)) = (\<bar>q\<bar> > 1 / 2 ^ 1075)"
| "truthy (Some (JString s)) = (s \<noteq> [])"
| "truthy (Some (JArray vs)) = True"
| "truthy (Some (JObject members)) = True"

fun is_array :: "json option \<Rightarrow> bool" where
  "is_array (Some (JArray vs)) = True"
| "is_array v = False"

text \<open>
  The two patterns that clean code fences, \<^verbatim>\<open>/^```json\s*/\<close> and \<^verbatim>\<open>/\s*```$/\<close>, each
  replaced once by the empty string.
\<close>

definition re_fence_open :: matcher where
  "re_fence_open = re_seq (re_lit (str ''```json'')) (re_star is_space)"

definition re_fence_close :: matcher where
  "re_fence_close = re_seq (re_star is_space) (re_seq (re_lit (str ''```'')) re_end)"

definition strip_fences :: "jsstring \<Rightarrow> jsstring" where
  "strip_fences jsonText =
     replace_first re_fence_close (\<lambda>_. []) (replace_at_start re_fence_open (\<lambda>_. []) jsonText)"

text \<open>
  The awaited call \<open>cropImageFromBase64(base64Image, part.box_2d)\<close> is taken as it
  answers for each value of \<open>part.box_2d\<close>: the promise resolves with a string, rejects,
  or never settles (an exception inside the \<open>onload\<close> handler leaves it pending).
\<close>

datatype crop_outcome = Crop_resolved jsstring | Crop_rejected | Crop_pending

datatype transcribe_error = Api_key_missing | Failed_to_process_image

datatype transcribe_outcome = Returned jsstring | Thrown transcribe_error | Never_settles

text \<open>
  The loop over the parts, with \<open>finalMarkdown\<close> as it stands. An exception in it
  reaches the outer \<open>catch\<close>, which throws the error of the whole call.
\<close>

fun assemble :: "(json option \<Rightarrow> crop_outcome) \<Rightarrow> jsstring \<Rightarrow> json list \<Rightarrow> transcribe_outcome" where
  "assemble crop finalMarkdown [] = Returned finalMarkdown"
| "assemble crop finalMarkdown (part # rest) =
     (case get_prop part (str ''type'') of
        Inl TypeError \<Rightarrow> Thrown Failed_to_process_image
      | Inr ty \<Rightarrow>
          if ty = Some (JString (str ''text'')) \<and> truthy (member part (str ''content''))
          then (case member part (str ''content'') of
                  Some (JString textContent) \<Rightarrow>
                    assemble crop (finalMarkdown @ normalize_latex textContent @ str ''\<newline>\<newline>'') rest
                | _ \<Rightarrow> Thrown Failed_to_process_image)
          else if ty = Some (JString (str ''figure'')) \<and> truthy (member part (str ''box_2d''))
          then (case crop (member part (str ''box_2d'')) of
                  Crop_resolved croppedBase64 \<Rightarrow>
                    if croppedBase64 \<noteq> []
                    then assemble crop
                           (finalMarkdown @ str ''![Figure](data:image/jpeg;base64,'' @ croppedBase64
                              @ str '')\<newline>\<newline>'') rest
                    else assemble crop finalMarkdown rest
                | Crop_rejected \<Rightarrow> assemble crop finalMarkdown rest
                | Crop_pending \<Rightarrow> Never_settles)
          else assemble crop finalMarkdown rest)"

definition reconstruct :: "(json option \<Rightarrow> crop_outcome) \<Rightarrow> json \<Rightarrow> transcribe_outcome" where
  "reconstruct crop data =
     (case get_prop data (str ''parts'') of
        Inl TypeError \<Rightarrow> Thrown Failed_to_process_image
      | Inr parts \<Rightarrow>
          if \<not> truthy parts \<or> \<not> is_array parts then Returned []
          else (case parts of
                  Some (JArray ps) \<Rightarrow> assemble crop [] ps
                | _ \<Rightarrow> Returned []))"

definition parse_response :: "(json option \<Rightarrow> crop_outcome) \<Rightarrow> jsstring option \<Rightarrow> transcribe_outcome" where
  \<comment> \<open>from \<open>response.text\<close> (a string or \<open>undefined\<close>) to the Markdown of the page\<close>
  "parse_response crop text =
     (let jsonText = (case text of None \<Rightarrow> str ''{}'' | Some t \<Rightarrow> if t \<noteq> [] then t else str ''{}'');
          jsonText = strip_fences jsonText
      in case JSON_parse jsonText of
           None \<Rightarrow> Returned jsonText
         | Some data \<Rightarrow> reconstruct crop data)"

datatype backend = Backend_error | Response "jsstring option"

definition transcribeImage ::
    "bool \<Rightarrow> backend \<Rightarrow> (json option \<Rightarrow> crop_outcome) \<Rightarrow> transcribe_outcome" where
  "transcribeImage has_api_key answer crop =
     (if \<not> has_api_key then Thrown Api_key_missing
      else case answer of
             Backend_error \<Rightarrow> Thrown Failed_to_process_image
           | Response text \<Rightarrow> parse_response crop text)"

text \<open>A cropper that rejects every box, to run the parser step with.\<close>

definition rejecting_crop :: "json option \<Rightarrow> crop_outcome" where
  "rejecting_crop box = Crop_rejected"

section \<open>Notions for reasoning about the angle rewrites\<close>

text \<open>
  Two texts agree when they are the same up to and including their first backslash. A
  matcher is tame when it gives the same on texts that agree, consumes no backslash and
  captures none. A pattern is anchored when it matches only at a backslash and is tame
  after it.
\<close>

fun agree :: "jsstring \<Rightarrow> jsstring \<Rightarrow> bool" where
  "agree [] [] = True"
| "agree (c # x) (d # y) = (c = d \<and> (c = bs \<or> agree x y))"
| "agree _ _ = False"




text \<open>A pattern is unmatched in a text when it matches at no position of it.\<close>

definition unmatched :: "matcher \<Rightarrow> jsstring \<Rightarrow> bool" where
  "unmatched p s \<longleftrightarrow> (\<forall>i \<le> length s. p (drop i s) = [])"



section \<open>Facts about matching\<close>

lemma exec_at_elem: "exec_at p s = Some r \<Longrightarrow> r \<in> set (p s)"
  by (auto simp: exec_at_def split: list.splits)

lemma re_seq_elem:
  "(caps, n) \<in> set (re_seq p q s) \<longleftrightarrow>
     (\<exists>c1 n1 c2 n2. (c1, n1) \<in> set (p s) \<and> (c2, n2) \<in> set (q (drop n1 s)) \<and>
        caps = c1 @ c2 \<and> n = n1 + n2)"
proof -
  have "(caps, n) \<in> set (re_seq p q s) \<longleftrightarrow>
        (\<exists>x \<in> set (p s). (caps, n) \<in> set (map (\<lambda>(c2, n2). (fst x @ c2, snd x + n2)) (q (drop (snd x) s))))"
    by (simp add: re_seq_def case_prod_unfold)
  also have "\<dots> \<longleftrightarrow> (\<exists>x \<in> set (p s). \<exists>y \<in> set (q (drop (snd x) s)). caps = fst x @ fst y \<and> n = snd x + snd y)"
    by (simp add: case_prod_unfold image_iff)
  also have "\<dots> \<longleftrightarrow> (\<exists>c1 n1 c2 n2. (c1, n1) \<in> set (p s) \<and> (c2, n2) \<in> set (q (drop n1 s)) \<and>
        caps = c1 @ c2 \<and> n = n1 + n2)"
    by (simp add: Bex_def)
  finally show ?thesis .
qed

lemma re_lit_elem:
  "(caps, n) \<in> set (re_lit w s) \<longleftrightarrow> take (length w) s = w \<and> caps = [] \<and> n = length w"
  by (auto simp: re_lit_def)

lemma re_grp_elem:
  "(caps, n) \<in> set (re_grp p s) \<longleftrightarrow> (\<exists>cs. (cs, n) \<in> set (p s) \<and> caps = take n s # cs)"
  by (auto simp: re_grp_def)

lemma re_lazy_elem:
  "(caps, n) \<in> set (re_lazy P s) \<longleftrightarrow> caps = [] \<and> n \<le> length (takeWhile P s)"
  by (auto simp: re_lazy_def)

lemma re_seq_litD:
  "(caps, n) \<in> set (re_seq (re_lit w) q s) \<Longrightarrow>
     take (length w) s = w \<and> (\<exists>m. (caps, m) \<in> set (q (drop (length w) s)) \<and> n = length w + m)"
  by (auto simp: re_seq_elem re_lit_elem)

lemma re_seq_lazyD:
  "(caps, n) \<in> set (re_seq (re_lazy P) q s) \<Longrightarrow>
     \<exists>k m. k \<le> length (takeWhile P s) \<and> (caps, m) \<in> set (q (drop k s)) \<and> n = k + m"
  by (auto simp: re_seq_elem re_lazy_elem)

lemma re_seq_grp_litD:
  "(caps, n) \<in> set (re_seq (re_grp p) (re_lit w) s) \<Longrightarrow>
     \<exists>cs m. (cs, m) \<in> set (p s) \<and> caps = take m s # cs \<and> n = m + length w \<and>
       take (length w) (drop m s) = w"
  by (auto simp: re_seq_elem re_lit_elem re_grp_elem)

lemma re_search_exec:
  "re_search p s = Some (i, caps, n) \<Longrightarrow> i \<le> length s \<and> exec_at p (drop i s) = Some (caps, n)"
proof (induction s arbitrary: i)
  case Nil
  then show ?case by (auto split: option.splits)
next
  case (Cons c cs)
  show ?case
  proof (cases "exec_at p (c # cs)")
    case None
    with Cons.prems obtain j where j: "re_search p cs = Some (j, caps, n)" "i = Suc j"
      by auto
    with Cons.IH [OF j(1)] show ?thesis by simp
  next
    case (Some r)
    with Cons.prems show ?thesis by (cases r) auto
  qed
qed

lemma dropWhile_all_iff:
  "(\<forall>c \<in> set (dropWhile P s). P c) \<longleftrightarrow> (\<forall>c \<in> set s. P c)"
proof
  assume h: "\<forall>c \<in> set (dropWhile P s). P c"
  have "dropWhile P s = []"
  proof (rule ccontr)
    assume ne: "dropWhile P s \<noteq> []"
    then have "\<not> P (hd (dropWhile P s))" by (rule hd_dropWhile)
    moreover from ne have "hd (dropWhile P s) \<in> set (dropWhile P s)" by simp
    ultimately show False using h by blast
  qed
  then show "\<forall>c \<in> set s. P c" by (simp add: dropWhile_eq_Nil_conv)
next
  assume "\<forall>c \<in> set s. P c"
  then show "\<forall>c \<in> set (dropWhile P s). P c" by (meson set_dropWhileD)
qed

lemma js_trim_empty: "js_trim s = [] \<longleftrightarrow> (\<forall>c \<in> set s. is_space c)"
  by (simp add: js_trim_def dropWhile_eq_Nil_conv dropWhile_all_iff)

section \<open>Properties of the normalizer\<close>

lemmas re_defs =
  re_inline_def re_display_def re_angle1_def re_angle3_def re_seq_def re_lit_def re_cls_def
  re_star_def re_lazy_def re_opt_def re_grp_def re_not_ahead_def re_end_def exec_at_def
  bs_def group1_def is_space_def is_upper_def is_any_def is_dot_def

lemmas tpl_defs =
  tpl_inline_def tpl_display_def tpl_widehat_def tpl_hat_def
  rewrite_inline_def rewrite_display_def rewrite_angle3_def rewrite_angle1_def

text \<open>
  C4: the normalizer maps \<^verbatim>\<open>\( x^2 \)\<close> to \<^verbatim>\<open>$ x^2 $\<close>, \<^verbatim>\<open>\angle ABC\<close> to
  \<^verbatim>\<open>\widehat{ABC}\<close> and \<^verbatim>\<open>\angle A\<close> to \<^verbatim>\<open>\hat{A}\<close>, and leaves \<^verbatim>\<open>\angle AB\<close>
  as it is.
\<close>

theorem normalize_known_inputs:
  "normalize_latex (bs # str ''( x^2 '' @ bs # str '')'') = str ''$ x^2 $'' \<and>
   normalize_latex (bs # str ''angle ABC'') = bs # str ''widehat{ABC}'' \<and>
   normalize_latex (bs # str ''angle A'') = bs # str ''hat{A}'' \<and>
   normalize_latex (bs # str ''angle AB'') = bs # str ''angle AB''"
  by (simp add: normalize_latex_def re_defs tpl_defs)

section \<open>Facts about rounding\<close>

text \<open>The nearest integer is monotone and leaves an integer alone.\<close>

lemma rne_floor: "rne x = \<lfloor>x\<rfloor> \<or> rne x = \<lfloor>x\<rfloor> + 1"
  by (simp add: rne_def Let_def)

lemma rne_of_int [simp]: "rne (of_int k) = k"
  by (simp add: rne_def)

lemma rne_ge: "of_int k \<le> x \<Longrightarrow> k \<le> rne x"
proof -
  assume "of_int k \<le> x"
  then have "k \<le> \<lfloor>x\<rfloor>" by (simp add: le_floor_iff)
  with rne_floor [of x] show ?thesis by auto
qed

lemma rne_le: "x \<le> of_int k \<Longrightarrow> rne x \<le> k"
proof (cases "x = of_int k")
  case True
  then show ?thesis by simp
next
  case False
  assume "x \<le> of_int k"
  with False have "x < of_int k" by simp
  then have "\<lfloor>x\<rfloor> < k" by (simp add: floor_less_iff)
  with rne_floor [of x] show ?thesis by auto
qed

lemma rne_mono: "x \<le> y \<Longrightarrow> rne x \<le> rne y"
proof -
  assume le: "x \<le> y"
  then have f: "\<lfloor>x\<rfloor> \<le> \<lfloor>y\<rfloor>" by (rule floor_mono)
  show ?thesis
  proof (cases "\<lfloor>x\<rfloor> = \<lfloor>y\<rfloor>")
    case False
    with f have "\<lfloor>x\<rfloor> + 1 \<le> \<lfloor>y\<rfloor>" by simp
    with rne_floor [of x] rne_floor [of y] show ?thesis by auto
  next
    case True
    with le show ?thesis by (auto simp: rne_def Let_def)
  qed
qed

lemma pow2_pos [simp]: "0 < (2::rat) powi k"
  by simp

lemma pow2_mono: "j \<le> k \<Longrightarrow> (2::rat) powi j \<le> 2 powi k"
  by (rule power_int_increasing) simp_all

lemma pow2_strict_mono: "j < k \<Longrightarrow> (2::rat) powi j < 2 powi k"
  by (rule power_int_strict_increasing) simp_all

lemma pow2_add: "(2::rat) powi (j + k) = 2 powi j * 2 powi k"
  by (simp add: power_int_add)

lemma pow2_diff: "(2::rat) powi (j - k) = 2 powi j / 2 powi k"
  by (simp add: power_int_diff)

lemma bitlen_rat_bounds:
  assumes "0 < a"
  shows "(2::rat) powi (bitlen a - 1) \<le> of_int a \<and> of_int a < (2::rat) powi bitlen a"
proof -
  from assms have l: "1 \<le> bitlen a"
    using bitlen_eq_zero_iff [of a] bitlen_nonneg [of a] by linarith
  from bitlen_bounds [OF assms]
  have "of_int ((2::int) ^ nat (bitlen a - 1)) \<le> (of_int a :: rat)"
    and "(of_int a :: rat) < of_int ((2::int) ^ nat (bitlen a))"
    by (simp_all only: of_int_le_iff of_int_less_iff)
  with l show ?thesis by (simp add: power_int_def)
qed

lemma expo_bounds:
  assumes "0 < q"
  shows "2 powi expo q \<le> q \<and> q < 2 powi (expo q + 1)"
proof -
  obtain a b where ab: "quotient_of q = (a, b)" by (cases "quotient_of q")
  then have b: "0 < b" by (rule quotient_of_denom_pos)
  from ab have q: "q = of_int a / of_int b" by (rule quotient_of_div)
  with assms b have a: "0 < a" by (simp add: zero_less_divide_iff)
  define la lb where "la = bitlen a" and "lb = bitlen b"
  from bitlen_rat_bounds [OF a]
  have a1: "(2::rat) powi (la - 1) \<le> of_int a" and a2: "of_int a < (2::rat) powi la"
    by (simp_all add: la_def)
  from bitlen_rat_bounds [OF b]
  have b1: "(2::rat) powi (lb - 1) \<le> of_int b" and b2: "of_int b < (2::rat) powi lb"
    by (simp_all add: lb_def)
  have bp: "0 < (of_int b :: rat)" using b by simp
  have "q * of_int b = of_int a" using q bp by simp
  have up: "q < 2 powi (la - lb + 1)"
  proof -
    have "of_int a < 2 powi (la - lb + 1) * (2::rat) powi (lb - 1)"
      using a2 by (simp add: pow2_add [symmetric])
    also have "\<dots> \<le> 2 powi (la - lb + 1) * of_int b"
      using b1 by (intro mult_left_mono) simp_all
    finally show ?thesis using bp by (simp add: q pos_divide_less_eq)
  qed
  have lo: "2 powi (la - lb - 1) < q"
  proof -
    have "2 powi (la - lb - 1) * (of_int b :: rat) < 2 powi (la - lb - 1) * 2 powi lb"
      using b2 by (intro mult_strict_left_mono) simp_all
    also have "\<dots> = 2 powi (la - 1)" by (simp add: pow2_add [symmetric])
    also have "\<dots> \<le> of_int a" by (rule a1)
    finally show ?thesis using bp by (simp add: q pos_less_divide_eq)
  qed
  show ?thesis
    using up lo ab by (auto simp: expo_def Let_def la_def lb_def not_le intro: less_imp_le)
qed

lemma expo_unique:
  assumes "0 < q" and "2 powi e \<le> q" and "q < 2 powi (e + 1)"
  shows "expo q = e"
proof (rule antisym)
  show "expo q \<le> e"
  proof (rule ccontr)
    assume "\<not> expo q \<le> e"
    then have "e + 1 \<le> expo q" by simp
    then have "(2::rat) powi (e + 1) \<le> 2 powi expo q" by (rule pow2_mono)
    with expo_bounds [OF assms(1)] assms(3) show False by simp
  qed
  show "e \<le> expo q"
  proof (rule ccontr)
    assume "\<not> e \<le> expo q"
    then have "expo q + 1 \<le> e" by simp
    then have "(2::rat) powi (expo q + 1) \<le> 2 powi e" by (rule pow2_mono)
    with expo_bounds [OF assms(1)] assms(2) show False by simp
  qed
qed

lemma expo_mono:
  assumes "0 < q" and "q \<le> q'"
  shows "expo q \<le> expo q'"
proof (rule ccontr)
  assume "\<not> expo q \<le> expo q'"
  then have "expo q' + 1 \<le> expo q" by simp
  then have "(2::rat) powi (expo q' + 1) \<le> 2 powi expo q" by (rule pow2_mono)
  moreover from assms have "0 < q'" by simp
  ultimately show False
    using expo_bounds [OF assms(1)] expo_bounds [OF \<open>0 < q'\<close>] assms(2) by simp
qed

lemma expo_less:
  assumes "0 < q" and "q < 2 powi k"
  shows "expo q < k"
proof (rule ccontr)
  assume "\<not> expo q < k"
  then have "(2::rat) powi k \<le> 2 powi expo q" by (intro pow2_mono) simp
  with expo_bounds [OF assms(1)] assms(2) show False by simp
qed

lemma pow2_53: "of_int (2 ^ 53) * (2::rat) powi (k - 52) = 2 powi (k + 1)"
proof -
  have e: "k + 1 = 53 + (k - 52)" by simp
  have "(2::rat) powi (k + 1) = 2 powi 53 * 2 powi (k - 52)"
    by (subst e) (rule pow2_add)
  then show ?thesis by simp
qed

lemma pow2_52: "of_int (2 ^ 52) * (2::rat) powi (k - 52) = 2 powi k"
proof -
  have e: "k = 52 + (k - 52)" by simp
  have "(2::rat) powi k = 2 powi 52 * 2 powi (k - 52)"
    by (subst e) (rule pow2_add)
  then show ?thesis by simp
qed

text \<open>The rounding of a positive value stays within the binade of the value.\<close>

lemma round_pos_upper:
  assumes "0 < q"
  shows "round_pos q \<le> 2 powi (max (expo q) (- 1022) + 1)"
proof -
  define c where "c = max (expo q) (- 1022)"
  define u :: rat where "u = 2 powi (c - 52)"
  have u: "0 < u" by (simp add: u_def)
  have "q < 2 powi (expo q + 1)" using expo_bounds [OF assms] by simp
  also have "\<dots> \<le> 2 powi (c + 1)" by (rule pow2_mono) (simp add: c_def)
  also have "\<dots> = of_int (2 ^ 53) * u" by (simp only: u_def pow2_53)
  finally have "q / u \<le> of_int (2 ^ 53)" using u by (simp add: pos_divide_le_eq)
  then have "rne (q / u) \<le> 2 ^ 53" by (rule rne_le)
  then have "of_int (rne (q / u)) * u \<le> of_int (2 ^ 53) * u"
    using u by (intro mult_right_mono) simp_all
  also have "\<dots> = 2 powi (c + 1)" by (simp only: u_def pow2_53)
  finally show ?thesis by (simp add: round_pos_def Let_def c_def u_def)
qed

lemma round_pos_lower:
  assumes "0 < q" and "- 1022 \<le> expo q"
  shows "2 powi expo q \<le> round_pos q"
proof -
  define u :: rat where "u = 2 powi (expo q - 52)"
  have u: "0 < u" by (simp add: u_def)
  have "of_int (2 ^ 52) * u = 2 powi expo q" by (simp only: u_def pow2_52)
  also have "\<dots> \<le> q" using expo_bounds [OF assms(1)] by simp
  finally have "of_int (2 ^ 52) \<le> q / u" using u by (simp add: pos_le_divide_eq)
  then have "2 ^ 52 \<le> rne (q / u)" by (rule rne_ge)
  then have A: "of_int (2 ^ 52) * u \<le> of_int (rne (q / u)) * u"
    using u by (intro mult_right_mono) simp_all
  have B: "of_int (2 ^ 52) * u = 2 powi expo q" by (simp only: u_def pow2_52)
  have C: "round_pos q = of_int (rne (q / u)) * u"
    using assms(2) by (simp add: round_pos_def Let_def u_def max_def)
  from A show ?thesis unfolding B C .
qed

lemma round_pos_nonneg: "0 < q \<Longrightarrow> 0 \<le> round_pos q"
proof -
  assume "0 < q"
  then have "0 \<le> q / 2 powi (max (expo q) (- 1022) - 52)" by simp
  then have "0 \<le> rne (q / 2 powi (max (expo q) (- 1022) - 52))"
    using rne_ge [of 0] by simp
  then show ?thesis by (simp add: round_pos_def Let_def)
qed

lemma round_pos_mono:
  assumes "0 < q" and "q \<le> q'"
  shows "round_pos q \<le> round_pos q'"
proof -
  from assms have q': "0 < q'" by simp
  define c c' where "c = max (expo q) (- 1022)" and "c' = max (expo q') (- 1022)"
  have cc: "c \<le> c'" using expo_mono [OF assms] by (simp add: c_def c'_def)
  show ?thesis
  proof (cases "c = c'")
    case True
    have "q / 2 powi (c - 52) \<le> q' / 2 powi (c - 52)"
      using assms(2) by (simp add: divide_right_mono)
    then have "rne (q / 2 powi (c - 52)) \<le> rne (q' / 2 powi (c - 52))" by (rule rne_mono)
    then have "of_int (rne (q / 2 powi (c - 52))) * (2::rat) powi (c - 52) \<le>
               of_int (rne (q' / 2 powi (c - 52))) * 2 powi (c - 52)"
      by (intro mult_right_mono) simp_all
    with True show ?thesis by (simp add: round_pos_def Let_def c_def c'_def)
  next
    case False
    with cc have lt: "c < c'" by simp
    then have e': "c' = expo q'" "- 1022 \<le> expo q'" by (auto simp: c_def c'_def max_def split: if_splits)
    have "round_pos q \<le> 2 powi (c + 1)" using round_pos_upper [OF assms(1)] by (simp add: c_def)
    also have "\<dots> \<le> 2 powi c'" using lt by (intro pow2_mono) simp
    also have "\<dots> \<le> round_pos q'" using round_pos_lower [OF q' e'(2)] e'(1) by simp
    finally show ?thesis .
  qed
qed

lemma round_pos_exact:
  assumes "q = of_int m * 2 powi j" and "0 < m" and "m < 2 ^ 53" and "- 1074 \<le> j"
  shows "round_pos q = q"
proof -
  have q: "0 < q" using assms(1,2) by simp
  have "q < of_int (2 ^ 53) * 2 powi j"
    unfolding assms(1) using assms(3) by (intro mult_strict_right_mono) simp_all
  also have "\<dots> = 2 powi (53 + j)"
  proof -
    have "(2::rat) powi (53 + j) = 2 powi 53 * 2 powi j" by (rule pow2_add)
    then show ?thesis by simp
  qed
  finally have "expo q < 53 + j" by (rule expo_less [OF q])
  define w where "w = max (expo q) (- 1022) - 52"
  from \<open>expo q < 53 + j\<close> assms(4) have le: "w \<le> j" by (simp add: w_def)
  define d where "d = nat (j - w)"
  from le have d: "j - w = int d" by (simp add: d_def)
  have "q / 2 powi w = of_int m * (2 powi j / 2 powi w)" by (simp add: assms(1))
  also have "\<dots> = of_int m * 2 powi (j - w)" by (simp only: pow2_diff)
  also have "\<dots> = of_int (m * 2 ^ d)" by (simp add: d)
  finally have eq: "q / 2 powi w = of_int (m * 2 ^ d)" .
  have r: "rne (q / 2 powi w) = m * 2 ^ d" unfolding eq by (rule rne_of_int)
  have "round_pos q = of_int (rne (q / 2 powi w)) * 2 powi w"
    by (simp add: round_pos_def Let_def w_def)
  also have "\<dots> = of_int m * (2 powi (j - w) * 2 powi w)" by (simp add: r d)
  also have "\<dots> = of_int m * 2 powi j" by (simp only: pow2_add [symmetric]) simp
  finally show ?thesis by (simp add: assms(1))
qed

text \<open>Rounding in general: signs, order, exact values, bounds.\<close>

lemma round64_pos:
  "0 < q \<Longrightarrow> round64 q = (if 2 powi 1024 \<le> round_pos q then Pos_inf else Finite (round_pos q))"
  by (simp add: round64_def Let_def)

lemma round64_neg:
  "q < 0 \<Longrightarrow> round64 q = (if 2 powi 1024 \<le> round_pos (- q) then Neg_inf else Finite (- round_pos (- q)))"
  by (simp add: round64_def Let_def)

lemma round64_zero [simp]: "round64 0 = Finite 0"
  by (simp add: round64_def)

lemma round64_not_NaN [simp]: "round64 q \<noteq> NaN"
  by (simp add: round64_def Let_def)

lemma round64_nonneg: "0 \<le> q \<Longrightarrow> num_le (Finite 0) (round64 q)"
  using round_pos_nonneg [of q] by (cases "q = 0") (simp_all add: round64_pos)

lemma round64_nonpos: "q \<le> 0 \<Longrightarrow> num_le (round64 q) (Finite 0)"
  using round_pos_nonneg [of "- q"] by (cases "q = 0") (simp_all add: round64_neg)

lemma num_le_trans: "num_le a b \<Longrightarrow> num_le b c \<Longrightarrow> num_le a c"
  by (cases a; cases b; cases c) simp_all

lemma round64_mono:
  assumes "q \<le> q'"
  shows "num_le (round64 q) (round64 q')"
proof -
  consider "q \<le> 0" "0 \<le> q'" | "0 < q" | "q' < 0" by linarith
  then show ?thesis
  proof cases
    case 1
    then show ?thesis
      using num_le_trans [OF round64_nonpos round64_nonneg] by simp
  next
    case 2
    with assms have "0 < q'" by simp
    with 2 round_pos_mono [OF 2 assms] show ?thesis by (simp add: round64_pos)
  next
    case 3
    with assms have "q < 0" by simp
    from 3 assms have "round_pos (- q') \<le> round_pos (- q)"
      by (intro round_pos_mono) simp_all
    with 3 \<open>q < 0\<close> show ?thesis by (simp add: round64_neg)
  qed
qed

lemma round64_exact:
  assumes "q = of_int m * 2 powi j" and "\<bar>m\<bar> < 2 ^ 53" and "- 1074 \<le> j" and "\<bar>q\<bar> < 2 powi 1024"
  shows "round64 q = Finite q"
proof -
  consider "m = 0" | "0 < m" | "m < 0" by linarith
  then show ?thesis
  proof cases
    case 1
    with assms(1) show ?thesis by simp
  next
    case 2
    with assms have "round_pos q = q" by (intro round_pos_exact [of q m j]) simp_all
    moreover from 2 assms(1) have "0 < q" by simp
    ultimately show ?thesis using assms(4) by (simp add: round64_pos)
  next
    case 3
    with assms have "round_pos (- q) = - q" by (intro round_pos_exact [of "- q" "- m" j]) simp_all
    moreover from 3 assms(1) have "q < 0" by (simp add: mult_neg_pos)
    ultimately show ?thesis using assms(4) by (simp add: round64_neg)
  qed
qed

lemma round64_of_nat: "n < 2 ^ 53 \<Longrightarrow> round64 (of_nat n) = Finite (of_nat n)"
proof -
  assume n: "n < 2 ^ 53"
  have "(of_nat n :: rat) < of_nat (2 ^ 53)" using n by (simp only: of_nat_less_iff)
  also have "\<dots> \<le> 2 powi 1024" by simp
  finally have "\<bar>of_nat n :: rat\<bar> < 2 powi 1024" by simp
  moreover have "\<bar>int n\<bar> < 2 ^ 53" using n by simp
  ultimately show ?thesis by (intro round64_exact [of _ "int n" 0]) simp_all
qed

lemma round64_pow2:
  assumes "- 1074 \<le> k" and "k \<le> 1023"
  shows "round64 (2 powi k) = Finite (2 powi k)"
proof -
  from assms(2) have "(2::rat) powi k < 2 powi 1024" by (intro pow2_strict_mono) simp
  then have "\<bar>(2::rat) powi k\<bar> < 2 powi 1024" by simp
  with assms(1) show ?thesis by (intro round64_exact [of _ 1 k]) simp_all
qed

lemma round64_neg_pow2:
  assumes "- 1074 \<le> k" and "k \<le> 1023"
  shows "round64 (- (2 powi k)) = Finite (- (2 powi k))"
proof -
  from assms(2) have "(2::rat) powi k < 2 powi 1024" by (intro pow2_strict_mono) simp
  then have "\<bar>- ((2::rat) powi k)\<bar> < 2 powi 1024" by simp
  with assms(1) show ?thesis by (intro round64_exact [of _ "- 1" k]) simp_all
qed

lemma round64_bounded:
  assumes "\<bar>q\<bar> \<le> 2 powi k" and "- 1074 \<le> k" and "k \<le> 1023"
  shows "\<exists>r. round64 q = Finite r \<and> \<bar>r\<bar> \<le> 2 powi k"
proof -
  from assms(1) have le: "- (2 powi k) \<le> q" "q \<le> 2 powi k" by linarith+
  have up: "num_le (round64 q) (Finite (2 powi k))"
    using round64_mono [OF le(2)] round64_pow2 [OF assms(2,3)] by simp
  have lo: "num_le (Finite (- (2 powi k))) (round64 q)"
    using round64_mono [OF le(1)] round64_neg_pow2 [OF assms(2,3)] by simp
  from up lo show ?thesis by (cases "round64 q") (simp_all add: abs_le_iff)
qed

text \<open>Evaluating a rounding: the exponent and the nearest significand are given.\<close>

lemma round64_eval:
  assumes "2 powi e \<le> q" and "q < 2 powi (e + 1)" and "- 1022 \<le> e" and "e \<le> 1022"
  shows "round64 q = Finite (of_int (rne (q / 2 powi (e - 52))) * 2 powi (e - 52))"
proof -
  have pos: "0 < q" using assms(1) pow2_pos [of e] by linarith
  have e: "expo q = e" using pos assms(1,2) by (rule expo_unique)
  have m: "max e (- 1022) = e" using assms(3) by simp
  have r: "round_pos q = of_int (rne (q / 2 powi (e - 52))) * 2 powi (e - 52)"
    by (simp only: round_pos_def e m Let_def)
  have "round_pos q \<le> 2 powi (e + 1)" using round_pos_upper [OF pos] by (simp only: e m)
  also have "\<dots> < 2 powi 1024" using assms(4) by (intro pow2_strict_mono) simp
  finally have "\<not> 2 powi 1024 \<le> round_pos q" by simp
  then show ?thesis using pos r by (simp add: round64_pos)
qed

lemma round64_overflow:
  assumes "2 powi 1024 \<le> q"
  shows "round64 q = Pos_inf"
proof -
  have pos: "0 < q" using assms pow2_pos [of 1024] by linarith
  have "\<not> expo q < 1024"
  proof
    assume "expo q < 1024"
    then have "expo q + 1 \<le> 1024" by simp
    then have "(2::rat) powi (expo q + 1) \<le> 2 powi 1024" by (rule pow2_mono)
    with expo_bounds [OF pos] assms show False by linarith
  qed
  then have e: "1024 \<le> expo q" by simp
  then have "(2::rat) powi 1024 \<le> 2 powi expo q" by (rule pow2_mono)
  also have "\<dots> \<le> round_pos q" using pos e by (intro round_pos_lower) simp_all
  finally show ?thesis using pos by (simp add: round64_pos)
qed

lemma round64_numeral [simp]:
  "numeral k < (2::int) ^ 53 \<Longrightarrow> round64 (numeral k) = Finite (numeral k)"
proof -
  assume "numeral k < (2::int) ^ 53"
  then have "numeral k < (2::nat) ^ 53"
    by (metis of_nat_less_iff of_nat_numeral of_nat_power)
  from round64_of_nat [OF this] show ?thesis by simp
qed

lemma round64_one [simp]: "round64 1 = Finite 1"
  using round64_of_nat [of 1] by simp

lemma num_nat_exact: "n < 2 ^ 53 \<Longrightarrow> num_nat n = Finite (of_nat n)"
  by (simp add: num_nat_def round64_of_nat)

lemma rne_near:
  assumes "\<bar>x - of_int k\<bar> < 1 / 2"
  shows "rne x = k"
proof (cases "of_int k \<le> x")
  case True
  with assms have "\<lfloor>x\<rfloor> = k" by (intro floor_unique) simp_all
  with assms True show ?thesis by (simp add: rne_def)
next
  case False
  with assms have f: "\<lfloor>x\<rfloor> = k - 1" by (intro floor_unique) simp_all
  with assms False show ?thesis by (simp add: rne_def)
qed

lemma round64_near:
  assumes "2 powi e \<le> q" and "q < 2 powi (e + 1)" and "- 1022 \<le> e" and "e \<le> 1022"
      and "\<bar>q / 2 powi (e - 52) - of_int m\<bar> < 1 / 2"
  shows "round64 q = Finite (of_int m * 2 powi (e - 52))"
  using round64_eval [OF assms(1-4)] rne_near [OF assms(5)] by simp

section \<open>Properties of the region cropper\<close>

lemma box_elem_four [simp]:
  "box_elem [a, b, c, d] 0 = a" "box_elem [a, b, c, d] (Suc 0) = b"
  "box_elem [a, b, c, d] 2 = c" "box_elem [a, b, c, d] 3 = d"
  by (simp_all add: box_elem_def)

text \<open>
  C5: for a box \<open>[yMin, xMin, yMax, xMax]\<close> and a raster of width \<open>W\<close> and height \<open>H\<close>
  the pixel bounds are \<open>x1 = xMin/1000 * W\<close>, \<open>y1 = yMin/1000 * H\<close>,
  \<open>x2 = xMax/1000 * W\<close>, \<open>y2 = yMax/1000 * H\<close>, each of the two operations being the
  one of double arithmetic; when \<open>x2 - x1\<close> or \<open>y2 - y1\<close> is at most zero the result is
  the empty one and no error; otherwise the rectangle \<open>(x1, y1, x2 - x1, y2 - y1)\<close> is
  what is cropped (given the canvas context, without which nothing can be drawn).
\<close>

theorem crop_pixel_bounds:
  fixes ymin xmin ymax xmax :: number and W H :: nat
  defines "x1 \<equiv> num_times (num_divide xmin (Finite 1000)) (num_nat W)"
      and "y1 \<equiv> num_times (num_divide ymin (Finite 1000)) (num_nat H)"
      and "x2 \<equiv> num_times (num_divide xmax (Finite 1000)) (num_nat W)"
      and "y2 \<equiv> num_times (num_divide ymax (Finite 1000)) (num_nat H)"
  shows "cropImageFromBase64 (Loaded W H) has_ctx [ymin, xmin, ymax, xmax] =
           (if num_le (num_minus x2 x1) (Finite 0) \<or> num_le (num_minus y2 y1) (Finite 0)
            then Resolved_empty
            else if has_ctx then
              Resolved_crop \<lparr>rect_x = x1, rect_y = y1,
                             rect_width = num_minus x2 x1, rect_height = num_minus y2 y1\<rparr>
            else Rejected No_canvas_context)"
  by (simp add: cropImageFromBase64_def to_pixels_def Let_def x1_def y1_def x2_def y2_def)

text \<open>
  Three boxes on which the rounding shows. On a raster of 800 by 600 the box
  \<open>[0, 0, 1000, 145]\<close> has the width \<open>115.99999999999999\<close>, one unit in the last place
  below 116. The bounds 8796093022208001 and 8796093022208002 of the x axis are taken
  to the same pixel, so that the width is zero and the result empty although the box is
  ordered. The bound \<open>1e308\<close> on both ends of the y axis of a raster 2000 high is taken
  to infinity, the height is NaN, and the guard does not hold.
\<close>

lemma to_pixels_zero [simp]: "n < 2 ^ 53 \<Longrightarrow> to_pixels (Finite 0) n = Finite 0"
  by (simp add: to_pixels_def num_nat_exact)

lemma crop_rounding_example:
  "cropImageFromBase64 (Loaded 800 600) True [Finite 0, Finite 0, Finite 1000, Finite 145] =
     Resolved_crop \<lparr>rect_x = Finite 0, rect_y = Finite 0,
                    rect_width = Finite (116 - 1 / 2 ^ 46), rect_height = Finite 600\<rparr>"
proof -
  have a: "round64 (29 / 200) = Finite (5224175567749775 / 2 ^ 55)"
    using round64_near [of "- 3" "29 / 200" 5224175567749775] by simp
  have b: "round64 (5224175567749775 / 2 ^ 55 * 800) = Finite (8162774324609023 / 2 ^ 46)"
    using round64_near [of 6 "5224175567749775 / 2 ^ 55 * 800" 8162774324609023] by simp
  have c: "round64 (8162774324609023 / 2 ^ 46) = Finite (8162774324609023 / 2 ^ 46)"
    using round64_near [of 6 "8162774324609023 / 2 ^ 46" 8162774324609023] by simp
  have x2: "to_pixels (Finite 145) 800 = Finite (8162774324609023 / 2 ^ 46)"
    using a b by (simp add: to_pixels_def num_nat_exact)
  have y2: "to_pixels (Finite 1000) 600 = Finite 600"
    by (simp add: to_pixels_def num_nat_exact)
  show ?thesis
    using c by (simp add: cropImageFromBase64_def Let_def x2 y2)
qed

lemma crop_collapse_example:
  "cropImageFromBase64 (Loaded 800 600) has_ctx
     [Finite 0, Finite 8796093022208001, Finite 1, Finite 8796093022208002] = Resolved_empty"
proof -
  have a: "round64 (8796093022208001 / 1000) = Finite (4503599627370497 / 2 ^ 9)"
    using round64_near [of 43 "8796093022208001 / 1000" 4503599627370497] by simp
  have b: "round64 (8796093022208002 / 1000) = Finite (4503599627370497 / 2 ^ 9)"
    using round64_near [of 43 "8796093022208002 / 1000" 4503599627370497] by simp
  have c: "round64 (4503599627370497 / 2 ^ 9 * 800) = Finite 7036874417766402"
    using round64_near [of 52 "4503599627370497 / 2 ^ 9 * 800" 7036874417766402] by simp
  have x1: "to_pixels (Finite 8796093022208001) 800 = Finite 7036874417766402"
    using a c by (simp add: to_pixels_def num_nat_exact)
  have x2: "to_pixels (Finite 8796093022208002) 800 = Finite 7036874417766402"
    using b c by (simp add: to_pixels_def num_nat_exact)
  show ?thesis
    by (simp add: cropImageFromBase64_def Let_def x1 x2)
qed

lemma crop_overflow_example:
  "cropImageFromBase64 (Loaded 1000 2000) has_ctx
     [Finite (156575653125701 * 2 ^ 976), Finite 0,
      Finite (156575653125701 * 2 ^ 976), Finite 10] =
     (if has_ctx
      then Resolved_crop \<lparr>rect_x = Finite 0, rect_y = Pos_inf,
                          rect_width = Finite 10, rect_height = NaN\<rparr>
      else Rejected No_canvas_context)"
proof -
  have a: "round64 (156575653125701 * 2 ^ 976 / 1000) = Finite (2565335500811485 * 2 ^ 962)"
    using round64_near [of 1013 "156575653125701 * 2 ^ 976 / 1000" 5130671001622970] by simp
  have b: "round64 (2565335500811485 * 2 ^ 962 * 2000) = Pos_inf"
    using round64_overflow [of "2565335500811485 * 2 ^ 962 * 2000"] by simp
  have y: "to_pixels (Finite (156575653125701 * 2 ^ 976)) 2000 = Pos_inf"
    using a b by (simp add: to_pixels_def num_nat_exact)
  have c: "round64 (1 / 100) = Finite (5764607523034235 / 2 ^ 59)"
    using round64_near [of "- 7" "1 / 100" 5764607523034235] by simp
  have d: "round64 (5764607523034235 / 2 ^ 59 * 1000) = Finite 10"
    using round64_near [of 3 "5764607523034235 / 2 ^ 59 * 1000" 5629499534213120] by simp
  have x2: "to_pixels (Finite 10) 1000 = Finite 10"
    using c d by (simp add: to_pixels_def num_nat_exact)
  show ?thesis
    using y by (simp add: cropImageFromBase64_def Let_def x2)
qed

text \<open>
  A bound of size at most \<open>10^300\<close> stays finite on a raster of less than \<open>2^32\<close>
  pixels; and as dividing, multiplying and rounding are monotone, two bounds that are
  out of order give an extent that is at most zero.
\<close>

lemma to_pixels_bounded:
  assumes "\<bar>a\<bar> \<le> 10 ^ 300" and "n < 2 ^ 32"
  shows "\<exists>d r. round64 (a / 1000) = Finite d \<and> to_pixels (Finite a) n = Finite r \<and>
           r = (case round64 (d * of_nat n) of Finite r \<Rightarrow> r | _ \<Rightarrow> 0) \<and>
           round64 (d * of_nat n) = Finite r"
proof -
  have "\<bar>a / 1000\<bar> \<le> 10 ^ 297" using assms(1) by simp
  also have "(10::rat) ^ 297 \<le> 2 powi 987" by simp
  finally obtain d where d: "round64 (a / 1000) = Finite d" "\<bar>d\<bar> \<le> 2 powi 987"
    using round64_bounded [of "a / 1000" 987] by auto
  have n: "(of_nat n :: rat) \<le> 2 powi 32"
  proof -
    have "(of_nat n :: rat) \<le> of_nat (2 ^ 32)" using assms(2) by (simp only: of_nat_le_iff)
    then show ?thesis by simp
  qed
  have "\<bar>d * of_nat n\<bar> = \<bar>d\<bar> * of_nat n" by (simp add: abs_mult)
  also have "\<dots> \<le> 2 powi 987 * 2 powi 32"
    using d(2) n by (intro mult_mono) simp_all
  also have "\<dots> = 2 powi 1019" by simp
  finally obtain r where r: "round64 (d * of_nat n) = Finite r"
    using round64_bounded [of "d * of_nat n" 1019] by auto
  have "n < 2 ^ 53" using assms(2) by (rule less_trans) simp
  then have "to_pixels (Finite a) n = Finite r"
    using d(1) r by (simp add: to_pixels_def num_nat_exact)
  with d(1) r show ?thesis by simp
qed

lemma out_of_order_extent:
  assumes "out_of_order lo hi" and "n < 2 ^ 32"
  shows "num_le (num_minus (to_pixels hi n) (to_pixels lo n)) (Finite 0)"
proof -
  from assms(1) obtain a b where ab: "lo = Finite a" "hi = Finite b" "b \<le> a"
    "\<bar>a\<bar> \<le> 10 ^ 300" "\<bar>b\<bar> \<le> 10 ^ 300"
    by (auto simp: out_of_order_def split: number.splits)
  from to_pixels_bounded [OF ab(4) assms(2)] obtain da ra where
    a: "round64 (a / 1000) = Finite da" "to_pixels (Finite a) n = Finite ra"
       "round64 (da * of_nat n) = Finite ra" by blast
  from to_pixels_bounded [OF ab(5) assms(2)] obtain db rb where
    b: "round64 (b / 1000) = Finite db" "to_pixels (Finite b) n = Finite rb"
       "round64 (db * of_nat n) = Finite rb" by blast
  have "b / 1000 \<le> a / 1000" using ab(3) by simp
  from round64_mono [OF this] have "db \<le> da" by (simp add: a(1) b(1))
  then have "db * of_nat n \<le> da * of_nat n" by (intro mult_right_mono) simp_all
  from round64_mono [OF this] have "rb \<le> ra" by (simp add: a(3) b(3))
  then have "num_le (round64 (rb - ra)) (Finite 0)" by (intro round64_nonpos) simp
  then show ?thesis by (simp add: ab(1,2) a(2) b(2))
qed

text \<open>
  C1, as the code has it: a box of which the bounds of the y axis, or those of the x
  axis, are out of order (the upper bound not above the lower one, both finite and at
  most \<open>10^300\<close> in size, the raster less than \<open>2^32\<close> pixels along that axis) gives no
  image and no error, whatever the bounds of the other axis and whatever the range of
  the coordinates.
\<close>

theorem crop_unordered_box_empty:
  assumes "out_of_order ymin ymax \<and> H < 2 ^ 32 \<or> out_of_order xmin xmax \<and> W < 2 ^ 32"
  shows "cropImageFromBase64 (Loaded W H) has_ctx [ymin, xmin, ymax, xmax] = Resolved_empty"
  using assms out_of_order_extent [of ymin ymax H] out_of_order_extent [of xmin xmax W]
  by (auto simp: cropImageFromBase64_def Let_def)

theorem crop_unordered_box_empty_witness:
  "(out_of_order (Finite 10) (Finite 20) \<and> (600::nat) < 2 ^ 32 \<or>
    out_of_order (Finite 500) (Finite 400) \<and> (800::nat) < 2 ^ 32) \<and>
   cropImageFromBase64 (Loaded 800 600) True [Finite 10, Finite 500, Finite 20, Finite 400] =
     Resolved_empty"
  using crop_unordered_box_empty [of "Finite 10" "Finite 20" 600 "Finite 500" "Finite 400" 800 True]
  by (simp add: out_of_order_def)

text \<open>
  A box that is ordered but reaches beyond 1000 violates the invariant and is cropped
  all the same: on a raster of 100 by 100 the box \<open>[0, 0, 2000, 2000]\<close> gives the
  rectangle \<open>(0, 0, 200, 200)\<close>.
\<close>

theorem crop_out_of_range_box_counterexample:
  "\<not> spec_box_invariant [Finite 0, Finite 0, Finite 2000, Finite 2000] \<and>
   cropImageFromBase64 (Loaded 100 100) True [Finite 0, Finite 0, Finite 2000, Finite 2000] =
     Resolved_crop \<lparr>rect_x = Finite 0, rect_y = Finite 0,
                    rect_width = Finite 200, rect_height = Finite 200\<rparr>"
proof -
  have p: "to_pixels (Finite 2000) 100 = Finite 200"
    by (simp add: to_pixels_def num_nat_exact)
  show ?thesis
    by (simp add: spec_box_invariant_def cropImageFromBase64_def Let_def p)
qed

section \<open>Properties of the exporters\<close>

lemma foldl_join: "foldl (\<lambda>r e. r @ sep @ e) acc rest = acc @ concat (map (\<lambda>e. sep @ e) rest)"
  by (induction rest arbitrary: acc) simp_all

lemma js_join_Cons: "js_join sep (x # rest) = x @ concat (map (\<lambda>e. sep @ e) rest)"
  by (simp add: js_join_def foldl_join)

lemma spec_blank_line_join_Cons:
  "spec_blank_line_join (x # rest) = x @ concat (map (\<lambda>e. str ''\<newline>\<newline>'' @ e) rest)"
  by (induction rest arbitrary: x) simp_all

text \<open>
  C8: the plain text that copyToClipboard puts on the clipboard is the Markdown of the
  pages, in page order, joined by blank lines.
\<close>

theorem clipboard_plain_text:
  "text_plain (clipboard_payload pages) = spec_blank_line_join (map markdown pages) \<and>
   fst (copyToClipboard True pages) = Some (clipboard_payload pages)"
proof (cases pages)
  case Nil
  then show ?thesis by (simp add: clipboard_payload_def js_join_def copyToClipboard_def)
next
  case (Cons p ps)
  then show ?thesis
    by (simp add: clipboard_payload_def js_join_Cons spec_blank_line_join_Cons
        copyToClipboard_def del: spec_blank_line_join.simps)
qed

text \<open>A match of the image pattern starts with \<open>![\<close>, and its group 1 with \<open>data:image/\<close>.\<close>

lemma re_image_shape:
  assumes "exec_at re_image s = Some (caps, n)"
  shows "take 2 s = str ''!['' \<and> group1 caps \<noteq> []"
proof -
  from assms have "(caps, n) \<in> set (re_image s)" by (rule exec_at_elem)
  from this [unfolded re_image_def, THEN re_seq_litD] obtain n1
    where 0: "take (length (str ''!['')) s = str ''![''"
      and 1: "(caps, n1) \<in> set (re_seq (re_lazy is_dot) (re_seq (re_lit (str ''](''))
       (re_seq (re_grp (re_seq (re_lit (str ''data:image/'')) (re_seq (re_lazy is_dot)
             (re_seq (re_lit (str '';base64,'')) (re_grp (re_lazy is_dot))))))
          (re_lit (str '')'')))) (drop (length (str ''!['')) s))"
    by blast
  from 1 [THEN re_seq_lazyD] obtain n2 s2
    where 2: "(caps, n2) \<in> set (re_seq (re_lit (str ''](''))
       (re_seq (re_grp (re_seq (re_lit (str ''data:image/'')) (re_seq (re_lazy is_dot)
             (re_seq (re_lit (str '';base64,'')) (re_grp (re_lazy is_dot))))))
          (re_lit (str '')''))) s2)"
    by blast
  from 2 [THEN re_seq_litD] obtain n3 s3
    where 3: "(caps, n3) \<in> set (re_seq (re_grp (re_seq (re_lit (str ''data:image/'')) (re_seq (re_lazy is_dot)
             (re_seq (re_lit (str '';base64,'')) (re_grp (re_lazy is_dot))))))
          (re_lit (str '')'')) s3)"
    by blast
  from 3 [THEN re_seq_grp_litD] obtain cs m
    where 4: "(cs, m) \<in> set (re_seq (re_lit (str ''data:image/'')) (re_seq (re_lazy is_dot)
             (re_seq (re_lit (str '';base64,'')) (re_grp (re_lazy is_dot)))) s3)"
      and caps: "caps = take m s3 # cs"
    by blast
  from 4 [THEN re_seq_litD] obtain k
    where "take (length (str ''data:image/'')) s3 = str ''data:image/''"
      and "m = length (str ''data:image/'') + k"
    by blast
  then have "take m s3 \<noteq> []" by auto
  with caps 0 show ?thesis by (simp add: group1_def numeral_2_eq_2)
qed

lemma image_line_not_blank:
  assumes "re_search re_image line = Some (i, caps, n)"
  shows "js_trim line \<noteq> []"
proof -
  from re_search_exec [OF assms] have "take 2 (drop i line) = str ''![''"
    by (auto dest: re_image_shape)
  then have "33 \<in> set (take 2 (drop i line))" by simp
  then have "33 \<in> set line" by (meson in_set_dropD in_set_takeD)
  moreover have "\<not> is_space 33" by (simp add: is_space_def)
  ultimately show ?thesis by (auto simp: js_trim_empty)
qed

lemma html_line_image:
  assumes "re_search re_image line = Some (i, caps, n)"
  shows "html_line line = img_html (group1 caps)"
proof -
  from re_search_exec [OF assms] have "group1 caps \<noteq> []"
    by (auto dest: re_image_shape)
  with assms show ?thesis by (simp add: html_line_def)
qed

lemma docx_line_image:
  assumes "re_search re_image line = Some (i, caps, n)"
  shows "docx_line env line =
           (if group2 caps \<noteq> [] then image_paragraph env (group2 caps) else text_paragraph line)"
  using assms image_line_not_blank [OF assms] by (simp add: docx_line_def)

lemma image_paragraph_eq:
  assumes "getImageDimensions env d = (w, h)" and "atob env d = Some binary"
    and "w < 2 ^ 53" and "h < 2 ^ 53"
  shows "image_paragraph env d =
           Para_image (map (\<lambda>c. c mod 256) binary)
             (if 600 < w then Finite 600 else Finite (of_nat w))
             (if 600 < w
              then num_times (Finite (of_nat h)) (num_divide (Finite 600) (Finite (of_nat w)))
              else Finite (of_nat h))"
proof -
  have "(600 < (of_nat w :: rat)) = (600 < w)"
    using of_nat_less_iff [of 600 w, where ?'a = rat] by simp
  with assms show ?thesis
    by (simp add: image_paragraph_def MAX_WIDTH_def Let_def num_nat_exact)
qed

lemma round64_half: "round64 (1 / 2) = Finite (1 / 2)"
  using round64_pow2 [of "- 1"] by simp

lemma round64_halved:
  assumes "h < 2 ^ 53"
  shows "round64 (of_nat h / 2) = Finite (of_nat h / 2)"
proof -
  have "(of_nat h :: rat) < of_nat (2 ^ 53)" using assms by (simp only: of_nat_less_iff)
  then have "\<bar>of_nat h / 2 :: rat\<bar> < 2 powi 1024" by simp
  moreover have "\<bar>int h\<bar> < 2 ^ 53" using assms by simp
  ultimately show ?thesis by (intro round64_exact [of _ "int h" "- 1"]) simp_all
qed

text \<open>
  An image of 1000 by 333 is inserted with the height \<open>199.79999999999998\<close>: the ratio
  \<open>600 / 1000\<close> is rounded, and so is its product with 333, which falls below \<open>999 / 5\<close>.
\<close>

lemma image_paragraph_rounding_example:
  assumes "getImageDimensions env d = (1000, 333)" and "atob env d = Some binary"
  shows "image_paragraph env d =
           Para_image (map (\<lambda>c. c mod 256) binary)
             (Finite 600) (Finite (999 / 5 - 3 / (5 * 2 ^ 45)))"
proof -
  have a: "round64 (3 / 5) = Finite (5404319552844595 / 2 ^ 53)"
    using round64_near [of "- 1" "3 / 5" 5404319552844595] by simp
  have b: "round64 (333 * (5404319552844595 / 2 ^ 53)) = Finite (7029837543348633 / 2 ^ 45)"
    using round64_near [of 7 "333 * (5404319552844595 / 2 ^ 53)" 7029837543348633] by simp
  show ?thesis
    using image_paragraph_eq [OF assms] a b by simp
qed


lemma sample_line_match:
  "re_search re_image (str ''a ![F](data:image/png;base64,QUJD) b'') =
     Some (2, [str ''data:image/png;base64,QUJD'', str ''QUJD''], 32)"
  by code_simp


text \<open>
  C10, as the code has it: a line that matches the image pattern gives, in the HTML of
  copyToClipboard, the image element of the matched data URL and nothing else of the
  line; in generateDocx it gives one paragraph made from the matched payload alone (the
  image, or the placeholder when the payload does not decode) when the payload is not
  empty, and the text paragraph of the whole line when the payload is empty.
\<close>

theorem image_line_only_image:
  assumes "re_search re_image line = Some (i, caps, n)"
  shows "html_line line = img_html (group1 caps) \<and>
         (group2 caps \<noteq> [] \<longrightarrow> docx_line env line = image_paragraph env (group2 caps)) \<and>
         (group2 caps = [] \<longrightarrow> docx_line env line = text_paragraph line)"
  using html_line_image [OF assms] docx_line_image [OF assms, of env] by simp

theorem image_line_only_image_witness:
  "re_search re_image (str ''a ![F](data:image/png;base64,QUJD) b'') =
     Some (2, [str ''data:image/png;base64,QUJD'', str ''QUJD''], 32) \<and>
   html_line (str ''a ![F](data:image/png;base64,QUJD) b'') =
     str ''<p align=\"center\"><img src=\"data:image/png;base64,QUJD\" style=\"max-width: 400px;\" /></p>'' \<and>
   docx_line sample_env (str ''a ![F](data:image/png;base64,QUJD) b'') =
     Para_image [65, 66, 67] (Finite 600) (Finite 400) \<and>
   docx_line failing_env (str ''a ![F](data:image/png;base64,QUJD) b'') =
     Para_text (str ''[Image Error]'')"
proof -
  have g: "group2 [str ''data:image/png;base64,QUJD'', str ''QUJD''] = str ''QUJD''"
    "group1 [str ''data:image/png;base64,QUJD'', str ''QUJD''] = str ''data:image/png;base64,QUJD''"
    by (simp_all add: group2_def group1_def)
  have d: "getImageDimensions sample_env (str ''QUJD'') = (1200, 800)"
    by (simp add: getImageDimensions_def sample_env_def)
  have a: "atob sample_env (str ''QUJD'') = Some (str ''ABC'')"
    by (simp add: sample_env_def)
  have p: "image_paragraph sample_env (str ''QUJD'') =
             Para_image [65, 66, 67] (Finite 600) (Finite 400)"
    using image_paragraph_eq [OF d a] round64_halved [of 800] by (simp add: round64_half)
  have q: "image_paragraph failing_env (str ''QUJD'') = Para_text (str ''[Image Error]'')"
    by (simp add: image_paragraph_def failing_env_def Let_def case_prod_unfold)
  from image_line_only_image [OF sample_line_match, of sample_env]
    image_line_only_image [OF sample_line_match, of failing_env] g p q sample_line_match
  show ?thesis by (simp add: img_html_def)
qed

text \<open>
  A line that matches the pattern with an empty payload is, in generateDocx, a text
  paragraph that keeps all of the line, the text around the image reference included.
\<close>

theorem docx_empty_payload_counterexample:
  "re_search re_image (str ''x![a](data:image/png;base64,)y'') =
     Some (1, [str ''data:image/png;base64,'', []], 28) \<and>
   docx_line failing_env (str ''x![a](data:image/png;base64,)y'') =
     Para_run (str ''x![a](data:image/png;base64,)y'') (str ''Times New Roman'') 24"
  by code_simp

section \<open>JSON.parse never runs out of fuel\<close>

lemma skip_ws_length: "length (skip_ws s) \<le> length s"
  by (simp add: skip_ws_def length_dropWhile_le)

lemma skip_ws_Cons: "skip_ws s = c # r \<Longrightarrow> length r < length s"
  using skip_ws_length [of s] by simp

lemma parse_string_body_length:
  "parse_string_body s = Some (v, r) \<Longrightarrow> length r < length s"
proof (induction s arbitrary: v r rule: parse_string_body.induct)
  case 1
  then show ?case by simp
next
  case (2 c cs)
  then show ?case
    by (fastforce split: if_splits list.splits option.splits prod.splits simp: apfst_def map_prod_def)
qed

lemma parse_integer_length: "parse_integer s = Some (i, r) \<Longrightarrow> length r < length s"
  by (cases s) (auto simp: parse_integer_def split: if_splits
      intro: le_imp_less_Suc length_dropWhile_le)

lemma parse_fraction_length: "parse_fraction s = Some (f, r) \<Longrightarrow> length r \<le> length s"
  by (cases s) (auto simp: parse_fraction_def Let_def split: if_splits
      intro: le_SucI length_dropWhile_le)

lemma parse_exponent_length: "parse_exponent s = Some (e, r) \<Longrightarrow> length r \<le> length s"
proof (cases s)
  case Nil
  then show "parse_exponent s = Some (e, r) \<Longrightarrow> length r \<le> length s"
    by (simp add: parse_exponent_def)
next
  case (Cons c t)
  assume a: "parse_exponent s = Some (e, r)"
  show "length r \<le> length s"
  proof (cases "c = 101 \<or> c = 69")
    case False
    with a Cons show ?thesis by (auto simp: parse_exponent_def)
  next
    case True
    define r1 where "r1 = (case t of [] \<Rightarrow> t | g # r' \<Rightarrow> if g = 45 then r' else if g = 43 then r' else t)"
    have "length r1 \<le> length t" by (auto simp: r1_def split: list.splits)
    moreover from a Cons True have "r = dropWhile is_digit r1"
      by (auto simp: parse_exponent_def Let_def r1_def split: if_splits list.splits)
    ultimately show ?thesis using Cons length_dropWhile_le [of is_digit r1] by simp
  qed
qed

lemma parse_number_length:
  assumes "parse_number s = Some (q, r)"
  shows "length r < length s"
proof -
  define s1 where "s1 = (case s of [] \<Rightarrow> s | c # t \<Rightarrow> if c = 45 then t else s)"
  have l1: "length s1 \<le> length s" by (auto simp: s1_def split: list.splits)
  from assms obtain ip s2 fp s3 ex
    where "parse_integer s1 = Some (ip, s2)" "parse_fraction s2 = Some (fp, s3)"
      "parse_exponent s3 = Some (ex, r)"
    by (auto simp: parse_number_def Let_def s1_def split: option.splits list.splits if_splits)
  with l1 parse_integer_length parse_fraction_length parse_exponent_length
  show ?thesis by fastforce
qed

lemma parse_consumes:
  "(\<forall>s v r. parse_value k s = Parsed v r \<longrightarrow> length r < length s) \<and>
   (\<forall>s vs r. parse_elements k s = Parsed vs r \<longrightarrow> length r < length s) \<and>
   (\<forall>s ms r. parse_members k s = Parsed ms r \<longrightarrow> length r < length s)"
proof (induction k)
  case 0
  show ?case by simp
next
  case (Suc k)
  have v: "length r < length s" if "parse_value (Suc k) s = Parsed v r" for s v r
  proof (cases "skip_ws s")
    case Nil
    with that show ?thesis by simp
  next
    case (Cons c t)
    note t = skip_ws_Cons [OF Cons]
    consider "c = 123" | "c = 91" | "c = 34" | "c \<noteq> 123" "c \<noteq> 91" "c \<noteq> 34" by blast
    then show ?thesis
    proof cases
      case 1
      show ?thesis
      proof (cases "skip_ws t")
        case Nil
        with that Cons 1 show ?thesis by simp
      next
        case (Cons d t')
        with that \<open>skip_ws s = c # t\<close> 1 t Suc.IH skip_ws_Cons [OF Cons] show ?thesis
          by (fastforce split: if_splits parse.splits)
      qed
    next
      case 2
      show ?thesis
      proof (cases "skip_ws t")
        case Nil
        with that Cons 2 show ?thesis by simp
      next
        case (Cons d t')
        with that \<open>skip_ws s = c # t\<close> 2 t Suc.IH skip_ws_Cons [OF Cons] show ?thesis
          by (fastforce split: if_splits parse.splits)
      qed
    next
      case 3
      with that Cons t parse_string_body_length show ?thesis
        by (fastforce split: option.splits)
    next
      case 4
      show ?thesis
      proof (cases "c = 45 \<or> is_digit c")
        case True
        with that Cons 4 obtain q where "parse_number (c # t) = Some (q, r)"
          by (auto split: option.splits)
        from parse_number_length [OF this] t show ?thesis by simp
      next
        case False
        with that Cons 4 t show ?thesis
          by (auto split: if_splits)
      qed
    qed
  qed
  have e: "length r < length s" if "parse_elements (Suc k) s = Parsed vs r" for s vs r
  proof -
    from that obtain v r1 where 1: "parse_value k s = Parsed v r1"
      by (auto split: parse.splits)
    with Suc.IH have l1: "length r1 < length s" by blast
    from that 1 obtain c r2 where 2: "skip_ws r1 = c # r2"
      by (auto split: list.splits)
    note l2 = skip_ws_Cons [OF 2]
    from that 1 2 Suc.IH l1 l2 show ?thesis
      by (fastforce split: if_splits parse.splits)
  qed
  have m: "length r < length s" if "parse_members (Suc k) s = Parsed ms r" for s ms r
  proof -
    from that obtain q r0 where 0: "skip_ws s = q # r0" "q = 34"
      by (auto split: list.splits if_splits)
    note l0 = skip_ws_Cons [OF 0(1)]
    from that 0 obtain key r1 where 1: "parse_string_body r0 = Some (key, r1)"
      by (auto split: option.splits)
    note l1 = parse_string_body_length [OF 1]
    from that 0 1 obtain c r2 where 2: "skip_ws r1 = c # r2" "c = 58"
      by (auto split: list.splits if_splits)
    note l2 = skip_ws_Cons [OF 2(1)]
    from that 0 1 2 obtain v r3 where 3: "parse_value k r2 = Parsed v r3"
      by (auto split: parse.splits)
    with Suc.IH have l3: "length r3 < length r2" by blast
    from that 0 1 2 3 obtain d r4 where 4: "skip_ws r3 = d # r4"
      by (auto split: list.splits)
    note l4 = skip_ws_Cons [OF 4]
    from that 0 1 2 3 4 Suc.IH l0 l1 l2 l3 l4 show ?thesis
      by (fastforce split: if_splits parse.splits)
  qed
  from v e m show ?case by blast
qed

lemma parse_value_consumes: "parse_value k s = Parsed v r \<Longrightarrow> length r < length s"
  using parse_consumes [of k] by blast

lemma parse_enough_fuel:
  "(\<forall>s. 2 * length s < k \<longrightarrow> parse_value k s \<noteq> Out_of_fuel) \<and>
   (\<forall>s. 2 * length s + 1 < k \<longrightarrow> parse_elements k s \<noteq> Out_of_fuel) \<and>
   (\<forall>s. 2 * length s + 1 < k \<longrightarrow> parse_members k s \<noteq> Out_of_fuel)"
proof (induction k)
  case 0
  show ?case by simp
next
  case (Suc k)
  have v: "parse_value (Suc k) s \<noteq> Out_of_fuel" if "2 * length s < Suc k" for s
  proof (cases "skip_ws s")
    case Nil
    then show ?thesis by simp
  next
    case (Cons c t)
    from skip_ws_Cons [OF Cons] that have "2 * length t + 1 < k" by simp
    with Suc.IH have "parse_elements k t \<noteq> Out_of_fuel" "parse_members k t \<noteq> Out_of_fuel"
      by blast+
    with Cons show ?thesis
      by (auto split: list.splits parse.splits option.splits)
  qed
  have e: "parse_elements (Suc k) s \<noteq> Out_of_fuel" if "2 * length s + 1 < Suc k" for s
  proof (cases "parse_value k s")
    case (Parsed x r)
    show ?thesis
    proof (cases "skip_ws r")
      case Nil
      with Parsed show ?thesis by simp
    next
      case (Cons c r')
      from parse_value_consumes [OF Parsed] skip_ws_Cons [OF Cons] that
      have "2 * length r' + 1 < k" by simp
      with Suc.IH have "parse_elements k r' \<noteq> Out_of_fuel" by blast
      with Parsed Cons show ?thesis by (auto split: parse.splits)
    qed
  next
    case Syntax_error
    then show ?thesis by simp
  next
    case Out_of_fuel
    moreover from that have "2 * length s < k" by simp
    ultimately show ?thesis using Suc.IH by blast
  qed
  have m: "parse_members (Suc k) s \<noteq> Out_of_fuel" if "2 * length s + 1 < Suc k" for s
  proof (cases "skip_ws s")
    case Nil
    then show ?thesis by simp
  next
    case s0: (Cons q r0)
    show ?thesis
    proof (cases "parse_string_body r0")
      case None
      with s0 show ?thesis by simp
    next
      case (Some a)
      obtain key r1 where a: "a = (key, r1)" by (cases a)
      show ?thesis
      proof (cases "skip_ws r1")
        case Nil
        with s0 Some a show ?thesis by simp
      next
        case s2: (Cons c r2)
        from skip_ws_Cons [OF s0] parse_string_body_length [OF Some [unfolded a]]
          skip_ws_Cons [OF s2] that
        have l2: "2 * length r2 < k" by simp
        show ?thesis
        proof (cases "parse_value k r2")
          case (Parsed x r3)
          show ?thesis
          proof (cases "skip_ws r3")
            case Nil
            with s0 Some a s2 Parsed show ?thesis by simp
          next
            case s4: (Cons d r4)
            from parse_value_consumes [OF Parsed] skip_ws_Cons [OF s4] l2
            have "2 * length r4 + 1 < k" by simp
            with Suc.IH have "parse_members k r4 \<noteq> Out_of_fuel" by blast
            with s0 Some a s2 Parsed s4 show ?thesis by (auto split: parse.splits)
          qed
        next
          case Syntax_error
          with s0 Some a s2 show ?thesis by simp
        next
          case Out_of_fuel
          with l2 Suc.IH show ?thesis by blast
        qed
      qed
    qed
  qed
  from v e m show ?case by blast
qed

text \<open>
  So a text that \<open>JSON_parse\<close> refuses is one with a syntax error, in its value or in
  what follows it.
\<close>

lemma JSON_parse_fuel: "parse_value (2 * length text + 2) text \<noteq> Out_of_fuel"
  using parse_enough_fuel [of "2 * length text + 2"] by simp

lemma JSON_parse_None:
  assumes "JSON_parse text = None"
  shows "parse_value (2 * length text + 2) text = Syntax_error \<or>
         (\<exists>v rest. parse_value (2 * length text + 2) text = Parsed v rest \<and> skip_ws rest \<noteq> [])"
  using assms JSON_parse_fuel [of "text"]
  by (cases "parse_value (2 * length text + 2) text")
    (auto simp: JSON_parse_def split: if_splits)

section \<open>Properties of the parser step\<close>

lemma re_search_None:
  "(\<And>i. i \<le> length s \<Longrightarrow> exec_at p (drop i s) = None) \<Longrightarrow> re_search p s = None"
proof (induction s)
  case Nil
  from Nil [of 0] show ?case by simp
next
  case (Cons c cs)
  from Cons.prems [of 0] have "exec_at p (c # cs) = None" by simp
  moreover have "re_search p cs = None"
  proof (rule Cons.IH)
    fix i assume "i \<le> length cs"
    with Cons.prems [of "Suc i"] show "exec_at p (drop i cs) = None" by simp
  qed
  ultimately show ?case by simp
qed

lemma re_star_elem:
  "(caps, n) \<in> set (re_star P s) \<longleftrightarrow> caps = [] \<and> n \<le> length (takeWhile P s)"
  by (auto simp: re_star_def)

lemma re_end_elem: "(caps, n) \<in> set (re_end s) \<longleftrightarrow> s = [] \<and> caps = [] \<and> n = 0"
  by (auto simp: re_end_def)

lemma re_fence_close_suffix:
  assumes "exec_at re_fence_close u = Some r"
  shows "suffix (str ''```'') u"
proof -
  obtain caps n where r: "r = (caps, n)" by (cases r)
  with assms have "(caps, n) \<in> set (re_fence_close u)" by (auto dest: exec_at_elem)
  then obtain k c2 n2
    where "(c2, n2) \<in> set (re_seq (re_lit (str ''```'')) re_end (drop k u))"
    unfolding re_fence_close_def re_seq_elem [of _ _ "re_star is_space"] by blast
  from this [THEN re_seq_litD]
  have t: "take (length (str ''```'')) (drop k u) = str ''```''"
    and d: "drop (length (str ''```'')) (drop k u) = []"
    by (auto simp: re_end_elem)
  have "drop k u = take (length (str ''```'')) (drop k u) @ drop (length (str ''```'')) (drop k u)"
    by (simp only: append_take_drop_id)
  with t d have "drop k u = str ''```''" by simp
  then have "u = take k u @ str ''```''" by (metis append_take_drop_id)
  then show ?thesis by (metis suffixI)
qed

lemma strip_fences_no_fence:
  assumes "\<not> prefix (str ''```json'') t" and "\<not> suffix (str ''```'') t"
  shows "strip_fences t = t"
proof -
  from assms(1) have "take (length (str ''```json'')) t \<noteq> str ''```json''"
    by (metis take_is_prefix)
  then have "exec_at re_fence_open t = None"
    by (simp add: exec_at_def re_fence_open_def re_seq_def re_lit_def)
  then have 1: "replace_at_start re_fence_open (\<lambda>_. []) t = t"
    by (simp add: replace_at_start_def)
  have "re_search re_fence_close t = None"
  proof (rule re_search_None)
    fix i
    show "exec_at re_fence_close (drop i t) = None"
    proof (cases "exec_at re_fence_close (drop i t)")
      case (Some r)
      then have "suffix (str ''```'') (drop i t)" by (rule re_fence_close_suffix)
      then have "suffix (str ''```'') t" by (meson suffix_drop suffix_order.trans)
      with assms(2) show ?thesis by simp
    qed simp
  qed
  then have "replace_first re_fence_close (\<lambda>_. []) t = t"
    by (simp add: replace_first_def)
  with 1 show ?thesis by (simp add: strip_fences_def)
qed

text \<open>
  C2, as the code has it: when the text, cleaned of its code fences, does not parse, the
  cleaned text is what is returned, and nothing is thrown; a text that neither starts
  with the opening fence nor ends with the closing one is returned as it came.
\<close>

theorem parse_failure_returns_cleaned_text:
  assumes "JSON_parse (strip_fences t) = None" and "t \<noteq> []"
  shows "parse_response crop (Some t) = Returned (strip_fences t) \<and>
         transcribeImage True (Response (Some t)) crop = Returned (strip_fences t) \<and>
         (\<not> prefix (str ''```json'') t \<and> \<not> suffix (str ''```'') t \<longrightarrow>
            parse_response crop (Some t) = Returned t)"
  using assms strip_fences_no_fence [of t]
  by (auto simp: parse_response_def transcribeImage_def)

theorem parse_failure_returns_cleaned_text_witness:
  "JSON_parse (strip_fences (str ''hello'')) = None \<and> str ''hello'' \<noteq> [] \<and>
   \<not> prefix (str ''```json'') (str ''hello'') \<and> \<not> suffix (str ''```'') (str ''hello'') \<and>
   parse_response rejecting_crop (Some (str ''hello'')) = Returned (str ''hello'') \<and>
   transcribeImage True (Response (Some (str ''hello''))) rejecting_crop = Returned (str ''hello'')"
proof -
  have s: "strip_fences (str ''hello'') = str ''hello''" by code_simp
  have p: "JSON_parse (str ''hello'') = None" by code_simp
  have f: "\<not> prefix (str ''```json'') (str ''hello'')" "\<not> suffix (str ''```'') (str ''hello'')"
    by (simp_all add: suffix_def)
  from parse_failure_returns_cleaned_text [of "str ''hello''" rejecting_crop] s p f
  show ?thesis by simp
qed

text \<open>
  A text with an opening fence that does not parse is not returned as it came: the
  fence and the newline after it are gone.
\<close>

theorem parse_failure_fenced_counterexample:
  "JSON_parse (str ''```json\<newline>hello'') = None \<and>
   parse_response rejecting_crop (Some (str ''```json\<newline>hello'')) = Returned (str ''hello'') \<and>
   str ''hello'' \<noteq> str ''```json\<newline>hello''"
  by code_simp

lemma reconstruct_without_parts:
  assumes "data \<noteq> JNull" and "\<not> is_array (member data (str ''parts''))"
  shows "reconstruct crop data = Returned []"
  using assms by (simp add: reconstruct_def get_prop_def)

text \<open>
  C7 at the response \<open>null\<close>: it parses as JSON and has no \<open>parts\<close>, and reading
  \<open>parts\<close> of it throws, so that the call ends with the error of the outer \<open>catch\<close>
  rather than with the empty document.
\<close>

theorem null_response_throws:
  "JSON_parse (strip_fences (str ''null'')) = Some JNull \<and>
   transcribeImage True (Response (Some (str ''null''))) rejecting_crop =
     Thrown Failed_to_process_image"
  by code_simp

lemma assemble_skip_step:
  assumes "member part (str ''type'') = Some (JString (str ''text''))"
    and "member part (str ''content'') = None \<or> member part (str ''content'') = Some (JString [])"
  shows "assemble crop md (part # rest) = assemble crop md rest"
proof -
  from assms(1) have "part \<noteq> JNull" by auto
  moreover from assms(2) have "\<not> truthy (member part (str ''content''))" by auto
  moreover have "str ''text'' \<noteq> str ''figure''" by simp
  ultimately show ?thesis using assms(1) by (simp add: get_prop_def)
qed

text \<open>
  C9: a part whose type is \<open>text\<close> and whose content is absent or the empty string adds
  nothing: the loop gives what it gives on the list without that part.
\<close>

theorem empty_text_part_skipped:
  assumes "member part (str ''type'') = Some (JString (str ''text''))"
    and "member part (str ''content'') = None \<or> member part (str ''content'') = Some (JString [])"
  shows "assemble crop md (before @ part # after) = assemble crop md (before @ after)"
proof (induction before arbitrary: md)
  case Nil
  show ?case using assemble_skip_step [OF assms] by simp
next
  case (Cons b bs)
  show ?case
    by (simp add: Cons.IH cong: if_cong sum.case_cong option.case_cong json.case_cong
        crop_outcome.case_cong type_error.case_cong)
qed

theorem empty_text_part_skipped_witness:
  "member (JObject [(str ''type'', JString (str ''text''))]) (str ''type'') = Some (JString (str ''text'')) \<and>
   member (JObject [(str ''type'', JString (str ''text''))]) (str ''content'') = None \<and>
   assemble rejecting_crop []
     ([JObject [(str ''type'', JString (str ''text'')), (str ''content'', JString (str ''a''))]]
        @ JObject [(str ''type'', JString (str ''text''))]
        # [JObject [(str ''type'', JString (str ''text'')), (str ''content'', JString (str ''b''))]]) =
   Returned (str ''a\<newline>\<newline>b\<newline>\<newline>'') \<and>
   parse_response rejecting_crop
     (Some (str ''{\"parts\":[{\"type\":\"text\",\"content\":\"a\"},{\"type\":\"text\"},{\"type\":\"text\",\"content\":\"b\"}]}'')) =
   Returned (str ''a\<newline>\<newline>b\<newline>\<newline>'')"
proof -
  have m: "member (JObject [(str ''type'', JString (str ''text''))]) (str ''type'') = Some (JString (str ''text''))"
    "member (JObject [(str ''type'', JString (str ''text''))]) (str ''content'') = None"
    by simp_all
  have a: "assemble rejecting_crop []
     ([JObject [(str ''type'', JString (str ''text'')), (str ''content'', JString (str ''a''))]]
        @ [JObject [(str ''type'', JString (str ''text'')), (str ''content'', JString (str ''b''))]]) =
     Returned (str ''a\<newline>\<newline>b\<newline>\<newline>'')"
    by code_simp
  have p: "parse_response rejecting_crop
     (Some (str ''{\"parts\":[{\"type\":\"text\",\"content\":\"a\"},{\"type\":\"text\"},{\"type\":\"text\",\"content\":\"b\"}]}'')) =
     Returned (str ''a\<newline>\<newline>b\<newline>\<newline>'')"
    by code_simp
  from empty_text_part_skipped [of "JObject [(str ''type'', JString (str ''text''))]" rejecting_crop "[]"
      "[JObject [(str ''type'', JString (str ''text'')), (str ''content'', JString (str ''a''))]]"
      "[JObject [(str ''type'', JString (str ''text'')), (str ''content'', JString (str ''b''))]]"] m a p
  show ?thesis by simp
qed

section \<open>Idempotence of the angle rewrites\<close>

lemma agree_refl: "agree s s"
  by (induction s) auto





















lemma unmatched_Cons: "unmatched p (c # t) \<longleftrightarrow> p (c # t) = [] \<and> unmatched p t"
proof
  assume u: "unmatched p (c # t)"
  then have "p (drop 0 (c # t)) = []" unfolding unmatched_def by blast
  moreover have "p (drop i t) = []" if "i \<le> length t" for i
    using u that unfolding unmatched_def by (metis Suc_le_mono drop_Suc_Cons length_Cons)
  ultimately show "p (c # t) = [] \<and> unmatched p t" by (simp add: unmatched_def)
next
  assume a: "p (c # t) = [] \<and> unmatched p t"
  show "unmatched p (c # t)"
    unfolding unmatched_def
  proof (intro allI impI)
    fix i assume "i \<le> length (c # t)"
    then show "p (drop i (c # t)) = []"
      using a by (cases i) (auto simp: unmatched_def)
  qed
qed

lemma unmatched_drop: "unmatched p s \<Longrightarrow> unmatched p (drop n s)"
proof (induction n arbitrary: s)
  case (Suc n)
  then show ?case by (cases s) (auto simp: unmatched_Cons)
qed simp





















end
